theory Spec2Isabelle
  imports Main "HOL-Library.AList"
begin

section \<open>Python values, dictionaries and exceptions\<close>

text \<open>
  The scripts work on dictionaries read from CSV files (through pandas) and from JSON
  files. A field value is used in four ways only: its truth value (\<open>if v\<close>,
  \<open>v or ""\<close>), its \<open>str()\<close> rendering, string methods (which exist on \<open>str\<close> only)
  and identity with \<open>True\<close>. A value that is neither \<open>None\<close>, a \<open>bool\<close> nor a \<open>str\<close>
  (a number, pandas' NaN for an empty cell, a list, a nested dict) is \<open>POther n t r\<close>:
  the name \<open>n\<close> of its type, its truth value \<open>t\<close> and its rendering \<open>r\<close>.
\<close>

datatype pyval = PNone | PBool bool | PStr string | POther string bool string

datatype py_error = TypeError | AttributeError | ValueError | JSONDecodeError

type_synonym row = "string \<rightharpoonup> pyval"

fun truthy :: "pyval \<Rightarrow> bool" where
  "truthy PNone = False"
| "truthy (PBool b) = b"
| "truthy (PStr s) = (s \<noteq> [])"
| "truthy (POther n t r) = t"

fun py_str :: "pyval \<Rightarrow> string" where
  "py_str PNone = ''None''"
| "py_str (PBool b) = (if b then ''True'' else ''False'')"
| "py_str (PStr s) = s"
| "py_str (POther n t r) = r"

text \<open>\<open>type(v).__name__\<close>\<close>

fun py_type_name :: "pyval \<Rightarrow> string" where
  "py_type_name PNone = ''NoneType''"
| "py_type_name (PBool b) = ''bool''"
| "py_type_name (PStr s) = ''str''"
| "py_type_name (POther n t r) = n"

text \<open>\<open>d.get(k, default)\<close>\<close>

definition dict_get :: "row \<Rightarrow> string \<Rightarrow> pyval \<Rightarrow> pyval" where
  "dict_get d k dflt = (case d k of None \<Rightarrow> dflt | Some v \<Rightarrow> v)"

text \<open>\<open>a or b\<close>\<close>

definition py_or :: "pyval \<Rightarrow> pyval \<Rightarrow> pyval" where
  "py_or a b = (if truthy a then a else b)"

section \<open>Strings\<close>

text \<open>
  Strings are lists of characters with the codes 0 to 255. \<open>str.strip()\<close> and the regular
  expression class \<open>\s\<close> remove the characters for which \<open>str.isspace()\<close> holds: below 256
  these are the codes 9 to 13, 28 to 32, 133 and 160. \<open>upper\<close> maps \<open>a\<close>..\<open>z\<close> to
  \<open>A\<close>..\<open>Z\<close> as \<open>str.upper()\<close> does; \<open>str.upper()\<close> also changes letters above 127, some
  of them to characters above 255 or to two characters, and on a text with such a letter
  \<open>upper\<close> is not \<open>str.upper()\<close>: patent identifiers and URLs are ASCII.
\<close>

definition is_space :: "char \<Rightarrow> bool" where
  "is_space c =
     (let n = (of_char c :: nat)
      in (9 \<le> n \<and> n \<le> 13) \<or> (28 \<le> n \<and> n \<le> 32) \<or> n = 133 \<or> n = 160)"

definition strip :: "string \<Rightarrow> string" where
  "strip s = rev (dropWhile is_space (rev (dropWhile is_space s)))"

definition upper_char :: "char \<Rightarrow> char" where
  "upper_char c = (let n = (of_char c :: nat) in if 97 \<le> n \<and> n \<le> 122 then char_of (n - 32) else c)"

definition upper :: "string \<Rightarrow> string" where
  "upper s = map upper_char s"

definition startswith :: "string \<Rightarrow> string \<Rightarrow> bool" where
  "startswith s p = (take (length p) s = p)"

definition endswith :: "string \<Rightarrow> string \<Rightarrow> bool" where
  "endswith s p = (length p \<le> length s \<and> drop (length s - length p) s = p)"

section \<open>Identity resolver (01\_get\_patents.py)\<close>

text \<open>
  \<open>re.search(r"/patent/([^/]+)/", url)\<close>: the leftmost position where \<open>/patent/\<close> is
  followed by a non-empty run of characters other than \<open>/\<close> and then a \<open>/\<close>. The run is
  greedy, and a shorter run would be followed by a character of the run, so only the
  maximal run can match. The result is group 1.
\<close>

definition match_patent_at :: "string \<Rightarrow> string option" where
  "match_patent_at s =
     (if startswith s ''/patent/''
      then (let r = drop 8 s;
                g = takeWhile (\<lambda>c. c \<noteq> CHR ''/'') r;
                t = dropWhile (\<lambda>c. c \<noteq> CHR ''/'') r
            in if g \<noteq> [] \<and> t \<noteq> [] then Some g else None)
      else None)"

fun search_patent :: "string \<Rightarrow> string option" where
  "search_patent [] = None"
| "search_patent (c # cs) =
     (case match_patent_at (c # cs) of
        Some g \<Rightarrow> Some g
      | None \<Rightarrow> search_patent cs)"

text \<open>
  \<open>extract_patent_id(url)\<close>: a false value gives \<open>""\<close>; \<open>re.search\<close> on a value that is
  not a string raises \<open>TypeError\<close>.
\<close>

fun extract_patent_id :: "pyval \<Rightarrow> py_error + string" where
  "extract_patent_id url =
     (if \<not> truthy url then Inr ''''
      else (case url of
              PStr s \<Rightarrow> (case search_patent s of Some g \<Rightarrow> Inr (strip g) | None \<Rightarrow> Inr '''')
            | _ \<Rightarrow> Inl TypeError))"

text \<open>\<open>normalize_id(pid)\<close> on a string: \<open>re.sub(r"[\s-]", "", pid.strip().upper())\<close>.\<close>

definition normalize_id :: "string \<Rightarrow> string" where
  "normalize_id pid = filter (\<lambda>c. \<not> is_space c \<and> c \<noteq> CHR ''-'') (upper (strip pid))"

text \<open>\<open>normalize_id\<close> on any value: \<open>pid.strip()\<close> raises \<open>AttributeError\<close> unless \<open>pid\<close> is a string.\<close>

fun normalize_id_val :: "pyval \<Rightarrow> py_error + string" where
  "normalize_id_val (PStr s) = Inr (normalize_id s)"
| "normalize_id_val v = Inl AttributeError"

definition get_csv_patent_id :: "row \<Rightarrow> py_error + string" where
  "get_csv_patent_id r =
     (let pid = strip (py_str (py_or (dict_get r ''id'' (PStr '''')) (PStr '''')))
      in if pid \<noteq> [] then Inr (normalize_id pid)
         else (case extract_patent_id (dict_get r ''result link'' (PStr '''')) of
                 Inl e \<Rightarrow> Inl e
               | Inr pid' \<Rightarrow> Inr (if pid' \<noteq> [] then normalize_id pid' else '''')))"

section \<open>Chunked store (01\_get\_patents.py)\<close>

text \<open>
  A chunk file either parses to a JSON array of records, as \<open>append_patents\<close> writes
  it, or \<open>json.load\<close> raises on it. A folder is what \<open>glob\<close> finds in it under the name
  \<open>all_patents_<int>.json\<close>, keyed by the integer of the name, one file for each index
  (as \<open>OUTPUT_TEMPLATE\<close> names them); files with another name are never read or written.
\<close>

datatype chunk_file = Unparsable | JArray "row list"

type_synonym folder = "(int \<times> chunk_file) list"

definition list_existing_json :: "folder \<Rightarrow> (int \<times> chunk_file) list" where
  "list_existing_json folder = sort_key fst folder"

text \<open>
  The body of the loop over the entries of one chunk in \<open>load_processed_ids\<close>: the key
  that the entry adds to \<open>processed\<close>, if any.
\<close>

definition entry_key :: "row \<Rightarrow> py_error + string option" where
  "entry_key entry =
     (let orig = dict_get entry ''original_id'' (PStr '''')
      in if truthy orig then map_sum id Some (normalize_id_val orig)
         else (case extract_patent_id (py_or (dict_get entry ''url'' (PStr '''')) (PStr '''')) of
                 Inl e \<Rightarrow> Inl e
               | Inr pid \<Rightarrow>
                   if pid \<noteq> [] then Inr (Some (normalize_id pid))
                   else (let pid' = dict_get entry ''id'' (PStr '''')
                         in if truthy pid' then map_sum id Some (normalize_id_val pid')
                            else Inr None)))"

fun load_entries :: "row list \<Rightarrow> string set \<Rightarrow> py_error + string set" where
  "load_entries [] processed = Inr processed"
| "load_entries (entry # arr) processed =
     (case entry_key entry of
        Inl e \<Rightarrow> Inl e
      | Inr None \<Rightarrow> load_entries arr processed
      | Inr (Some k) \<Rightarrow> load_entries arr (insert k processed))"

fun load_files :: "(int \<times> chunk_file) list \<Rightarrow> string set \<Rightarrow> py_error + string set" where
  "load_files [] processed = Inr processed"
| "load_files ((idx, Unparsable) # fs) processed = load_files fs processed"
| "load_files ((idx, JArray arr) # fs) processed =
     (case load_entries arr processed of
        Inl e \<Rightarrow> Inl e
      | Inr processed' \<Rightarrow> load_files fs processed')"

definition load_processed_ids :: "folder \<Rightarrow> py_error + string set" where
  "load_processed_ids folder = load_files (list_existing_json folder) {}"

text \<open>
  Writing a chunk: \<open>json.dump\<close> into \<open>path + ".tmp"\<close>, then \<open>os.replace(tmp, path)\<close>. The
  chunk's path shows the old content until the rename and the new content after it, so
  the write is one update of the folder.
\<close>

definition write_file :: "folder \<Rightarrow> int \<Rightarrow> chunk_file \<Rightarrow> folder" where
  "write_file folder idx f = AList.update idx f folder"

text \<open>\<open>range(0, n, step)\<close> for a positive step.\<close>

definition range_step :: "nat \<Rightarrow> nat \<Rightarrow> nat list" where
  "range_step n step = map (\<lambda>k. k * step) [0 ..< (n + step - 1) div step]"

text \<open>One round of the loop "write full chunks": the folder and \<open>next_idx\<close> are the state.\<close>

definition write_chunk :: "row list \<Rightarrow> nat \<Rightarrow> nat \<Rightarrow> folder \<times> int \<Rightarrow> folder \<times> int" where
  "write_chunk new_list chunk i st =
     (write_file (fst st) (snd st) (JArray (take chunk (drop i new_list))), snd st + 1)"

definition write_chunks :: "row list \<Rightarrow> nat \<Rightarrow> folder \<Rightarrow> int \<Rightarrow> folder" where
  "write_chunks new_list chunk folder next_idx =
     fst (fold (write_chunk new_list chunk) (range_step (length new_list) chunk) (folder, next_idx))"

text \<open>
  \<open>append_patents(new_list, folder, chunk)\<close>. The capacity \<open>chunk\<close> is a count
  (\<open>CHUNK_SIZE = 1000\<close> at both call sites); with \<open>chunk = 0\<close> the last file is never
  filled and \<open>range(0, len(new_list), 0)\<close> raises \<open>ValueError\<close>. \<open>fill_last\<close> is the part
  "try filling the last file if not already full": it gives the folder, the records still
  to write and \<open>next_idx\<close>.
\<close>

definition fill_last :: "row list \<Rightarrow> folder \<Rightarrow> nat \<Rightarrow> folder \<times> row list \<times> int" where
  "fill_last new_list folder chunk =
     (let existing = list_existing_json folder;
          next_idx = (if existing \<noteq> [] then fst (last existing) + 1 else 0)
      in if existing \<noteq> []
         then (let last_idx = fst (last existing);
                   content = (case snd (last existing) of JArray c \<Rightarrow> c | Unparsable \<Rightarrow> [])
               in if length content < chunk
                  then (let space = chunk - length content
                        in (write_file folder last_idx (JArray (content @ take space new_list)),
                            drop space new_list, last_idx + 1))
                  else (folder, new_list, next_idx))
         else (folder, new_list, next_idx))"

definition append_patents :: "row list \<Rightarrow> folder \<Rightarrow> nat \<Rightarrow> py_error + folder" where
  "append_patents new_list folder chunk =
     (if new_list = [] then Inr folder
      else (case fill_last new_list folder chunk of
              (folder', new_list', next_idx) \<Rightarrow>
                if chunk = 0 then Inl ValueError
                else Inr (write_chunks new_list' chunk folder' next_idx)))"

text \<open>The records held by the chunk files of a folder that parse.\<close>

definition entries_of :: "folder \<Rightarrow> row set" where
  "entries_of folder = {e. \<exists>i arr. (i, JArray arr) \<in> set folder \<and> e \<in> set arr}"

section \<open>Scraping one CSV row with retries (01\_get\_patents.py)\<close>

definition MAX_RETRIES :: nat where
  "MAX_RETRIES = 3"

definition RETRY_DELAY :: nat where
  "RETRY_DELAY = 2"

text \<open>
  What the external scraper does in one attempt: \<open>request_single_patent\<close> or
  \<open>get_scraped_data\<close> raises (with the text of the exception), or the request returns a
  status other than \<open>"Success"\<close>, or the page is scraped into a dictionary, with the final
  URL.
\<close>

datatype scrape_result = ScraperRaises string | NotSuccess string | Scraped row pyval

text \<open>
  The body of the \<open>try\<close> in \<open>process_row\<close>: \<open>Inl\<close> is the text of the exception that the
  \<open>except\<close> clause receives, \<open>Inr\<close> the dictionary returned. \<open>normalize_id(row.get("id", pid))\<close>
  raises inside the \<open>try\<close> when the row's id is not a string; \<open>attribute_error_text\<close> is
  the text of that \<open>AttributeError\<close>, as in \<open>'float' object has no attribute 'strip'\<close>.
\<close>

definition attribute_error_text :: "pyval \<Rightarrow> string" where
  "attribute_error_text v =
     [CHR 0x27] @ py_type_name v @ [CHR 0x27] @ '' object has no attribute '' @
     [CHR 0x27] @ ''strip'' @ [CHR 0x27]"

definition scrape_attempt :: "row \<Rightarrow> string \<Rightarrow> string \<Rightarrow> scrape_result \<Rightarrow> string + row" where
  "scrape_attempt r pid url res =
     (case res of
        ScraperRaises msg \<Rightarrow> Inl msg
      | NotSuccess err \<Rightarrow> Inl (''HTTP error: '' @ err)
      | Scraped data final_url \<Rightarrow>
          (case normalize_id_val (dict_get r ''id'' (PStr pid)) of
             Inl e \<Rightarrow> Inl (attribute_error_text (dict_get r ''id'' (PStr pid)))
           | Inr nid \<Rightarrow>
               Inr (data(''id'' \<mapsto> PStr nid,
                         ''url'' \<mapsto> py_or final_url (PStr url),
                         ''csv_title'' \<mapsto> dict_get r ''title'' (PStr ''''),
                         ''original_id'' \<mapsto> dict_get r ''id'' (PStr '''')))))"

text \<open>
  The loop \<open>for attempt in range(1, MAX_RETRIES+1)\<close>, over the attempts still to make.
  The result is what \<open>process_row\<close> returns (\<open>None\<close> if the loop ends without a
  \<open>return\<close>) and the arguments of the calls of \<open>time.sleep\<close>, in order.
\<close>

fun retry_loop :: "row \<Rightarrow> string \<Rightarrow> string \<Rightarrow> (nat \<Rightarrow> scrape_result) \<Rightarrow> nat list \<Rightarrow> row option \<times> nat list" where
  "retry_loop r pid url scraper [] = (None, [])"
| "retry_loop r pid url scraper (attempt # rest) =
     (case scrape_attempt r pid url (scraper attempt) of
        Inr data \<Rightarrow> (Some data, [])
      | Inl msg \<Rightarrow>
          if attempt < MAX_RETRIES
          then (let delay = RETRY_DELAY * 2 ^ (attempt - 1);
                    res = retry_loop r pid url scraper rest
                in (fst res, delay # snd res))
          else (Some [''id'' \<mapsto> PStr pid, ''url'' \<mapsto> PStr url, ''error'' \<mapsto> PStr msg], []))"

text \<open>
  \<open>process_row(row)\<close>; \<open>scraper attempt\<close> is what the scraper does in that attempt.
  \<open>row.get("result link", "").strip()\<close> raises \<open>AttributeError\<close> on a value that is not
  a string.
\<close>

definition process_row :: "(nat \<Rightarrow> scrape_result) \<Rightarrow> row \<Rightarrow> py_error + (row option \<times> nat list)" where
  "process_row scraper r =
     (case get_csv_patent_id r of
        Inl e \<Rightarrow> Inl e
      | Inr pid \<Rightarrow>
          (case dict_get r ''result link'' (PStr '''') of
             PStr u \<Rightarrow>
               (let url = strip u
                in if url = [] \<or> pid = []
                   then Inr (Some [''id'' \<mapsto> PStr pid, ''error'' \<mapsto> PStr ''Missing URL or ID''], [])
                   else Inr (retry_loop r pid url scraper [1 ..< MAX_RETRIES + 1]))
           | _ \<Rightarrow> Inl AttributeError))"

section \<open>Fetching a patent page (03\_get\_description.py)\<close>

text \<open>
  One \<open>session.get\<close> followed by \<open>raise_for_status\<close>: the content of the page, an
  \<open>HTTPError\<close> with the status code of the response, or any other exception (connection,
  timeout, retries of the adapter exhausted).
\<close>

datatype http_result = Page string | HTTPError nat | OtherException

definition convert_id_to_url_format :: "string \<Rightarrow> string" where
  "convert_id_to_url_format original_id = strip (filter (\<lambda>c. c \<noteq> CHR ''-'') original_id)"

definition base_url :: "string \<Rightarrow> string" where
  "base_url original_id = ''https://patents.google.com/patent/'' @ convert_id_to_url_format original_id"

definition en_url :: "string \<Rightarrow> string" where
  "en_url original_id = base_url original_id @ ''/en''"

text \<open>
  \<open>_get_page_html(original_id)\<close>: the page (\<open>None\<close> for "no data") and the URLs requested,
  in order. The three handlers of the first \<open>try\<close> only log, each in its own words, and
  control reaches the second \<open>try\<close> after any of them.
\<close>

definition fallback_to_base :: "(string \<Rightarrow> http_result) \<Rightarrow> string \<Rightarrow> string option \<times> string list" where
  "fallback_to_base fetch original_id =
     (case fetch (base_url original_id) of
        Page content \<Rightarrow> (Some content, [en_url original_id, base_url original_id])
      | _ \<Rightarrow> (None, [en_url original_id, base_url original_id]))"

definition get_page_html :: "(string \<Rightarrow> http_result) \<Rightarrow> string \<Rightarrow> string option \<times> string list" where
  "get_page_html fetch original_id =
     (case fetch (en_url original_id) of
        Page content \<Rightarrow> (Some content, [en_url original_id])
      | HTTPError status \<Rightarrow>
          (if status = 404 then fallback_to_base fetch original_id
           else fallback_to_base fetch original_id)
      | OtherException \<Rightarrow> fallback_to_base fetch original_id)"
section \<open>Responses of the language model (02, 04 and 05)\<close>

subsection \<open>The JSON library\<close>

text \<open>
  \<open>json.loads\<close> and \<open>json.dumps\<close> are library functions; the annotators are modelled for
  any such pair. \<open>loads\<close> gives \<open>None\<close> where \<open>json.loads\<close> raises \<open>JSONDecodeError\<close>;
  \<open>as_dict\<close> gives the dictionary when the parsed value is one (\<open>isinstance(parsed, dict)\<close>).
\<close>

record 'j json_lib =
  loads :: "string \<Rightarrow> 'j option"
  dumps :: "'j \<Rightarrow> string"
  as_dict :: "'j \<Rightarrow> row option"

subsection \<open>The regular expressions of \<open>extract_json\<close>\<close>

text \<open>\<open>re.search\<close>: the match at the leftmost position that has one.\<close>

fun search_with :: "(string \<Rightarrow> 'a option) \<Rightarrow> string \<Rightarrow> 'a option" where
  "search_with m [] = m []"
| "search_with m (c # cs) =
     (case m (c # cs) of
        Some g \<Rightarrow> Some g
      | None \<Rightarrow> search_with m cs)"

text \<open>The tail \<open>\s*```\<close> of both patterns, matched against the text after the group.\<close>

definition closes_fence :: "string \<Rightarrow> bool" where
  "closes_fence s = startswith (dropWhile is_space s) ''```''"

text \<open>
  The group \<open>(\{.*?\})\<close> after its opening brace, with \<open>re.DOTALL\<close>: the lazy \<open>.*?\<close>
  stops at the first \<open>}\<close> after which the tail matches.
\<close>

fun lazy_object :: "string \<Rightarrow> string option" where
  "lazy_object [] = None"
| "lazy_object (c # cs) =
     (if c = CHR ''}'' \<and> closes_fence cs then Some [c]
      else map_option ((#) c) (lazy_object cs))"

text \<open>
  The group \<open>(\{.*\})\<close> after its opening brace: the greedy \<open>.*\<close> gives back characters
  until a \<open>}\<close> after which the tail matches, so it stops at the last such \<open>}\<close>.
\<close>

fun greedy_object :: "string \<Rightarrow> string option" where
  "greedy_object [] = None"
| "greedy_object (c # cs) =
     (case greedy_object cs of
        Some g \<Rightarrow> Some (c # g)
      | None \<Rightarrow> if c = CHR ''}'' \<and> closes_fence cs then Some [c] else None)"

text \<open>
  \<open>```(?:json)?\s*(\{...\})\s*```\<close> at the start of \<open>s\<close>, the group being matched by
  \<open>obj\<close>. After the fence, \<open>json\<close> is consumed when it is there (without it the next
  character would have to be a space or a brace), then all spaces (with fewer the next
  character would be a space, not a brace).
\<close>

definition match_fenced_object_at :: "(string \<Rightarrow> string option) \<Rightarrow> string \<Rightarrow> string option" where
  "match_fenced_object_at obj s =
     (if startswith s ''```''
      then (let r = drop 3 s;
                r' = (if startswith r ''json'' then drop 4 r else r)
            in (case dropWhile is_space r' of
                  [] \<Rightarrow> None
                | c # body \<Rightarrow>
                    if c = CHR ''{'' then map_option ((#) c) (obj body) else None))
      else None)"

text \<open>\<open>```(.*?)```\<close> at the start of \<open>s\<close>: the group is the text up to the next fence.\<close>

fun until_fence :: "string \<Rightarrow> string option" where
  "until_fence [] = None"
| "until_fence (c # cs) =
     (if startswith (c # cs) ''```'' then Some []
      else map_option ((#) c) (until_fence cs))"

definition match_fence_at :: "string \<Rightarrow> string option" where
  "match_fence_at s = (if startswith s ''```'' then until_fence (drop 3 s) else None)"

subsection \<open>\<open>extract_json\<close> of 02\_get\_edtech.py and 05\_check\_is\_covid.py\<close>

definition extract_json :: "string \<Rightarrow> string" where
  "extract_json text =
     (case search_with (match_fenced_object_at lazy_object) text of
        Some g \<Rightarrow> g
      | None \<Rightarrow>
          (case search_with match_fence_at text of
             Some g \<Rightarrow>
               (let candidate = strip g
                in if startswith candidate ''{'' \<and> endswith candidate ''}'' then candidate
                   else strip text)
           | None \<Rightarrow> strip text))"

subsection \<open>\<open>extract_json\<close> of 04\_edtech\_classidied.py\<close>

text \<open>\<open>s.strip(',')\<close>\<close>

definition strip_commas :: "string \<Rightarrow> string" where
  "strip_commas s =
     rev (dropWhile (\<lambda>c. c = CHR '','') (rev (dropWhile (\<lambda>c. c = CHR '','') s)))"

text \<open>The candidate that \<open>extract_json\<close> hands to \<open>json.loads\<close>.\<close>

definition json_candidate :: "string \<Rightarrow> string" where
  "json_candidate text0 =
     (let text = strip text0;
          candidate = (case search_with (match_fenced_object_at greedy_object) text of
                         Some g \<Rightarrow> strip g
                       | None \<Rightarrow> text)
      in if \<not> (startswith candidate ''{'' \<and> endswith candidate ''}'')
         then ''{'' @ strip_commas (strip candidate) @ ''}''
         else candidate)"

definition extract_json_04 :: "'j json_lib \<Rightarrow> string \<Rightarrow> py_error + string" where
  "extract_json_04 lib text =
     (case loads lib (json_candidate text) of
        None \<Rightarrow> Inl JSONDecodeError
      | Some obj \<Rightarrow> Inr (dumps lib obj))"

subsection \<open>The annotators\<close>

text \<open>
  What one call of \<open>client.chat.completions.create\<close> gives: an exception, a response
  without choices or message, or a message with its content.
\<close>

datatype api_outcome = ApiRaises | NoMessage | Content pyval

text \<open>One round of a retry loop either returns a value or ends in the handler of the outer \<open>try\<close>.\<close>

datatype 'a attempt = Return 'a | Raised

definition retry_limit :: nat where
  "retry_limit = 3"

text \<open>
  \<open>async_get_teaching_content\<close> (02) and \<open>async_get_covid_status\<close> (05) are the same text
  up to the key read from the response and the default returned: \<open>key\<close> and \<open>dflt\<close>. A
  content that is not a string makes \<open>re.search\<close> raise in \<open>extract_json\<close>, outside the
  inner \<open>try\<close>. On a parsed value that is not a dictionary the test \<open>key in parsed\<close> is
  false, or the test or the subscript raises inside the inner \<open>try\<close>: the default is
  returned each time.
\<close>

definition field_attempt :: "'j json_lib \<Rightarrow> string \<Rightarrow> pyval \<Rightarrow> api_outcome \<Rightarrow> pyval attempt" where
  "field_attempt lib key dflt outcome =
     (case outcome of
        ApiRaises \<Rightarrow> Raised
      | NoMessage \<Rightarrow> Return dflt
      | Content c \<Rightarrow>
          (case c of
             PStr s \<Rightarrow>
               (case loads lib (extract_json s) of
                  None \<Rightarrow> Return dflt
                | Some parsed \<Rightarrow>
                    (case as_dict lib parsed of
                       None \<Rightarrow> Return dflt
                     | Some d \<Rightarrow>
                         (case d key of
                            Some v \<Rightarrow> Return v
                          | None \<Rightarrow> Return dflt)))
           | _ \<Rightarrow> Raised))"

text \<open>
  The loop \<open>for attempt in range(1, retry_limit + 1)\<close>: the value returned, the arguments
  of \<open>asyncio.sleep\<close> in order, and the number of calls of the API.
\<close>

fun field_loop :: "'j json_lib \<Rightarrow> string \<Rightarrow> pyval \<Rightarrow> (nat \<Rightarrow> api_outcome) \<Rightarrow> nat list \<Rightarrow> pyval \<times> nat list \<times> nat" where
  "field_loop lib key dflt api [] = (dflt, [], 0)"
| "field_loop lib key dflt api (attempt # rest) =
     (case field_attempt lib key dflt (api attempt) of
        Return v \<Rightarrow> (v, [], 1)
      | Raised \<Rightarrow>
          if attempt = retry_limit then (dflt, [], 1)
          else (case field_loop lib key dflt api rest of
                  (v, sleeps, calls) \<Rightarrow> (v, attempt # sleeps, Suc calls)))"

definition async_get_field :: "'j json_lib \<Rightarrow> string \<Rightarrow> pyval \<Rightarrow> (nat \<Rightarrow> api_outcome) \<Rightarrow> string \<Rightarrow> pyval \<times> nat list \<times> nat" where
  "async_get_field lib key dflt api text =
     (if strip text = [] then (dflt, [], 0)
      else field_loop lib key dflt api [1 ..< retry_limit + 1])"

definition async_get_teaching_content :: "'j json_lib \<Rightarrow> (nat \<Rightarrow> api_outcome) \<Rightarrow> string \<Rightarrow> pyval \<times> nat list \<times> nat" where
  "async_get_teaching_content lib api text = async_get_field lib ''teaching_content'' (PBool False) api text"

definition async_get_covid_status :: "'j json_lib \<Rightarrow> (nat \<Rightarrow> api_outcome) \<Rightarrow> string \<Rightarrow> pyval \<times> nat list \<times> nat" where
  "async_get_covid_status lib api text = async_get_field lib ''is_covid'' (PStr ''non-covid'') api text"

text \<open>\<open>async_get_edtech_classification\<close> (04).\<close>

definition default_result :: row where
  "default_result = [''technology_class'' \<mapsto> PStr ''Unknown'', ''reason'' \<mapsto> PStr ''No description provided'']"

definition error_result :: row where
  "error_result = [''technology_class'' \<mapsto> PStr ''Error'', ''reason'' \<mapsto> PStr ''API call failed'']"

text \<open>
  One round of its loop after the shutdown check: \<open>Some\<close> is the dictionary returned;
  \<open>None\<close> means that a handler logged the failure and control goes on to the backoff.
\<close>

definition classify_attempt :: "'j json_lib \<Rightarrow> api_outcome \<Rightarrow> row option" where
  "classify_attempt lib outcome =
     (case outcome of
        ApiRaises \<Rightarrow> None
      | NoMessage \<Rightarrow> None
      | Content c \<Rightarrow>
          (case c of
             PStr s \<Rightarrow>
               (case extract_json_04 lib s of
                  Inl e \<Rightarrow> None
                | Inr content_cleaned \<Rightarrow>
                    (case loads lib content_cleaned of
                       None \<Rightarrow> None
                     | Some parsed \<Rightarrow>
                         (case as_dict lib parsed of
                            None \<Rightarrow> None
                          | Some d \<Rightarrow>
                              if d ''technology_class'' \<noteq> None \<and> d ''reason'' \<noteq> None
                              then Some [''technology_class'' \<mapsto> dict_get d ''technology_class'' PNone,
                                         ''reason'' \<mapsto> dict_get d ''reason'' PNone]
                              else Some [''technology_class'' \<mapsto> dict_get d ''technology_class'' (PStr ''Missing''),
                                         ''reason'' \<mapsto> dict_get d ''reason'' (PStr ''Missing'')])))
           | _ \<Rightarrow> None))"

text \<open>
  The loop; \<open>shutdown attempt\<close> is the value of the global flag \<open>shutdown_requested\<close> when
  that round reads it.
\<close>

fun classify_loop :: "'j json_lib \<Rightarrow> (nat \<Rightarrow> api_outcome) \<Rightarrow> (nat \<Rightarrow> bool) \<Rightarrow> nat list \<Rightarrow> row \<times> nat list \<times> nat" where
  "classify_loop lib api shutdown [] = (error_result, [], 0)"
| "classify_loop lib api shutdown (attempt # rest) =
     (if shutdown attempt then (error_result, [], 0)
      else (case classify_attempt lib (api attempt) of
              Some result \<Rightarrow> (result, [], 1)
            | None \<Rightarrow>
                (case classify_loop lib api shutdown rest of
                   (result, sleeps, calls) \<Rightarrow>
                     (result,
                      (if attempt < retry_limit then attempt * 2 # sleeps else sleeps),
                      Suc calls))))"

definition async_get_edtech_classification :: "'j json_lib \<Rightarrow> (nat \<Rightarrow> api_outcome) \<Rightarrow> (nat \<Rightarrow> bool) \<Rightarrow> string \<Rightarrow> row \<times> nat list \<times> nat" where
  "async_get_edtech_classification lib api shutdown text =
     (if strip text = [] then (default_result, [], 0)
      else classify_loop lib api shutdown [1 ..< retry_limit + 1])"

section \<open>The education-relevance stage (02\_get\_edtech.py)\<close>

text \<open>
  \<open>process_patent(client, record, semaphore, limiter)\<close>: the record as the coroutine
  leaves it and the number of calls of the API. \<open>shutdown_requested\<close> is the value of the
  global flag when the coroutine starts; \<open>api\<close> gives the outcome of each call it makes.
\<close>

definition process_patent_02 :: "'j json_lib \<Rightarrow> bool \<Rightarrow> (nat \<Rightarrow> api_outcome) \<Rightarrow> row \<Rightarrow> py_error + (row \<times> nat)" where
  "process_patent_02 lib shutdown_requested api record =
     (if shutdown_requested then Inr (record, 0)
      else (case dict_get record ''abstract_text'' (PStr '''') of
              PStr s \<Rightarrow>
                (let abstract = strip s
                 in if abstract \<noteq> []
                    then (case async_get_teaching_content lib api abstract of
                            (teaching_value, sleeps, calls) \<Rightarrow>
                              Inr (record(''teaching_content'' \<mapsto> teaching_value), calls))
                    else Inr (record(''teaching_content'' \<mapsto> PNone), 0))
            | _ \<Rightarrow> Inl AttributeError))"

text \<open>
  \<open>[record for record in records if record.get("abstract_text", "").strip()]\<close>: the
  comprehension raises at the first record whose \<open>abstract_text\<close> is not a string.
\<close>

fun filter_abstract :: "row list \<Rightarrow> py_error + row list" where
  "filter_abstract [] = Inr []"
| "filter_abstract (record # records) =
     (case dict_get record ''abstract_text'' (PStr '''') of
        PStr s \<Rightarrow>
          (case filter_abstract records of
             Inl e \<Rightarrow> Inl e
           | Inr kept \<Rightarrow> Inr (if strip s \<noteq> [] then record # kept else kept))
      | _ \<Rightarrow> Inl AttributeError)"

text \<open>
  The record of task \<open>i\<close> once all tasks are done. Every task writes to its own record
  only, so the order in which the event loop runs the tasks does not show in the records.
  An exception of a task is caught by \<open>main\<close>, and the record stays as it was.
\<close>

definition task_record :: "'j json_lib \<Rightarrow> (nat \<Rightarrow> bool) \<Rightarrow> (nat \<Rightarrow> nat \<Rightarrow> api_outcome) \<Rightarrow> row list \<Rightarrow> nat \<Rightarrow> row" where
  "task_record lib shutdown api records i =
     (case process_patent_02 lib (shutdown i) (api i) (records ! i) of
        Inr (record', calls) \<Rightarrow> record'
      | Inl e \<Rightarrow> records ! i)"

text \<open>
  \<open>main()\<close> from the records loaded: the list written to the output file.
  \<open>shutdown i\<close> is the flag as task \<open>i\<close> reads it, \<open>api i\<close> the outcomes of its calls.
  \<open>record.get("teaching_content") is True\<close> holds for the Boolean \<open>True\<close> only.
\<close>

definition main_02 :: "'j json_lib \<Rightarrow> (nat \<Rightarrow> bool) \<Rightarrow> (nat \<Rightarrow> nat \<Rightarrow> api_outcome) \<Rightarrow> row list \<Rightarrow> py_error + row list" where
  "main_02 lib shutdown api loaded =
     (case filter_abstract loaded of
        Inl e \<Rightarrow> Inl e
      | Inr records \<Rightarrow>
          Inr (filter (\<lambda>record. record ''teaching_content'' = Some (PBool True))
                 (map (task_record lib shutdown api records) [0 ..< length records])))"

section \<open>Tasks and the shutdown flag (04\_edtech\_classidied.py, 05\_check\_is\_covid.py)\<close>

text \<open>
  The global flag \<open>shutdown_requested\<close> goes from \<open>False\<close> to \<open>True\<close> when the signal
  handler runs. For one task, \<open>shutdown t\<close> is its value at instant \<open>t\<close>: instant \<open>0\<close> is the
  start of \<open>process_patent\<close>, instant \<open>k\<close> the start of round \<open>k\<close> of the retry loop. A
  coroutine sees the flag only where its text reads it.

  \<open>process_patent\<close> of 04: the record as the coroutine leaves it and the number of calls of
  the API. Its \<open>except Exception\<close> turns the \<open>AttributeError\<close> of \<open>.strip()\<close> on a
  description that is not a string into an annotation.
\<close>

definition process_patent_04 :: "'j json_lib \<Rightarrow> (nat \<Rightarrow> bool) \<Rightarrow> (nat \<Rightarrow> api_outcome) \<Rightarrow> row \<Rightarrow> row \<times> nat" where
  "process_patent_04 lib shutdown api record =
     (if shutdown 0
      then (record(''technology_class'' \<mapsto> PStr ''Shutdown'', ''reason'' \<mapsto> PStr ''Shutdown requested''), 0)
      else (case dict_get record ''description'' (PStr '''') of
              PStr s \<Rightarrow>
                (let description = strip s
                 in if description \<noteq> []
                    then (case async_get_edtech_classification lib api shutdown description of
                            (classification_result, sleeps, calls) \<Rightarrow>
                              (record(''technology_class'' \<mapsto> dict_get classification_result ''technology_class'' (PStr ''Error''),
                                      ''reason'' \<mapsto> dict_get classification_result ''reason'' (PStr ''Error'')),
                               calls))
                    else (record(''technology_class'' \<mapsto> PStr ''No Description'',
                                 ''reason'' \<mapsto> PStr ''No description provided''), 0))
            | _ \<Rightarrow>
                (record(''technology_class'' \<mapsto> PStr ''Error'',
                        ''reason'' \<mapsto> PStr ''Exception during processing''), 0)))"

text \<open>
  \<open>process_patent\<close> of 05. It reads the flag at its start only, and
  \<open>async_get_covid_status\<close> does not read it.
\<close>

definition process_patent_05 :: "'j json_lib \<Rightarrow> (nat \<Rightarrow> bool) \<Rightarrow> (nat \<Rightarrow> api_outcome) \<Rightarrow> row \<Rightarrow> py_error + (row \<times> nat)" where
  "process_patent_05 lib shutdown api record =
     (if shutdown 0 then Inr (record, 0)
      else (case dict_get record ''description'' (PStr '''') of
              PStr s \<Rightarrow>
                (let description = strip s
                 in if description \<noteq> []
                    then (case async_get_covid_status lib api description of
                            (covid_value, sleeps, calls) \<Rightarrow>
                              Inr (record(''is_covid'' \<mapsto> covid_value), calls))
                    else Inr (record(''is_covid'' \<mapsto> PStr ''non-covid''), 0))
            | _ \<Rightarrow> Inl AttributeError))"

text \<open>
  The records for which \<open>main\<close> creates a task. In 04 the comprehension is
  \<open>[... for record in records if not shutdown_requested]\<close>; nothing is awaited inside it,
  so the flag has one value throughout. In 02 and 05 it is \<open>[... for record in records]\<close>:
  the flag is not read, whatever its value.
\<close>

definition tasks_04 :: "bool \<Rightarrow> row list \<Rightarrow> row list" where
  "tasks_04 shutdown_requested records = filter (\<lambda>record. \<not> shutdown_requested) records"

definition tasks_05 :: "bool \<Rightarrow> row list \<Rightarrow> row list" where
  "tasks_05 shutdown_requested records = records"

section \<open>A reference JSON library for closed examples\<close>

text \<open>
  The theorems about the annotators hold for every JSON library. Where a concrete
  response is evaluated, the library is this one: \<open>json.loads\<close> and \<open>json.dumps\<close> on the
  texts that are a string, \<open>true\<close>, \<open>false\<close>, \<open>null\<close>, or an object whose members have
  such values, with strings free of backslashes, quotes and control characters. On these
  texts it agrees with Python's \<open>json\<close>; it gives \<open>None\<close> on every other text, also where
  \<open>json.loads\<close> accepts it (numbers, arrays, nested objects, escapes), so it stands for
  \<open>json.loads\<close> only on the texts of the fragment and on those that \<open>json.loads\<close> rejects.
  As in a Python dictionary, a repeated key keeps its first position and its last value.
\<close>

datatype json_ref = JObj "(string \<times> pyval) list" | JVal pyval

definition json_ws :: "char \<Rightarrow> bool" where
  "json_ws c = (c = CHR '' '' \<or> c = CHR 0x09 \<or> c = CHR 0x0A \<or> c = CHR 0x0D)"

fun ref_string :: "string \<Rightarrow> (string \<times> string) option" where
  "ref_string [] = None"
| "ref_string (c # cs) =
     (if c = CHR 0x22 then Some ([], cs)
      else if c = CHR 0x5C \<or> (of_char c :: nat) < 32 then None
      else map_option (\<lambda>(s, r). (c # s, r)) (ref_string cs))"

definition ref_scalar :: "string \<Rightarrow> (pyval \<times> string) option" where
  "ref_scalar s =
     (case s of
        [] \<Rightarrow> None
      | c # cs \<Rightarrow>
          if c = CHR 0x22 then map_option (\<lambda>(v, r). (PStr v, r)) (ref_string cs)
          else if startswith s ''true'' then Some (PBool True, drop 4 s)
          else if startswith s ''false'' then Some (PBool False, drop 5 s)
          else if startswith s ''null'' then Some (PNone, drop 4 s)
          else None)"

fun ref_members :: "nat \<Rightarrow> (string \<times> pyval) list \<Rightarrow> string \<Rightarrow> ((string \<times> pyval) list \<times> string) option" where
  "ref_members 0 acc s = None"
| "ref_members (Suc n) acc s =
     (case s of
        [] \<Rightarrow> None
      | c # cs \<Rightarrow>
          if c \<noteq> CHR 0x22 then None
          else (case ref_string cs of
                  None \<Rightarrow> None
                | Some (k, r1) \<Rightarrow>
                    (case dropWhile json_ws r1 of
                       [] \<Rightarrow> None
                     | c2 # r2 \<Rightarrow>
                         if c2 \<noteq> CHR '':'' then None
                         else (case ref_scalar (dropWhile json_ws r2) of
                                 None \<Rightarrow> None
                               | Some (v, r3) \<Rightarrow>
                                   (case dropWhile json_ws r3 of
                                      [] \<Rightarrow> None
                                    | c3 # r4 \<Rightarrow>
                                        if c3 = CHR '','' then ref_members n (AList.update k v acc) (dropWhile json_ws r4)
                                        else if c3 = CHR ''}'' then Some (AList.update k v acc, r4)
                                        else None)))))"

definition ref_finish :: "json_ref \<Rightarrow> string \<Rightarrow> json_ref option" where
  "ref_finish j r = (if dropWhile json_ws r = [] then Some j else None)"

definition json_loads_ref :: "string \<Rightarrow> json_ref option" where
  "json_loads_ref s =
     (case dropWhile json_ws s of
        [] \<Rightarrow> None
      | c # cs \<Rightarrow>
          if c = CHR ''{''
          then (case dropWhile json_ws cs of
                  [] \<Rightarrow> None
                | c' # r \<Rightarrow>
                    if c' = CHR ''}'' then ref_finish (JObj []) r
                    else (case ref_members (length cs) [] (c' # r) of
                            None \<Rightarrow> None
                          | Some (kvs, r') \<Rightarrow> ref_finish (JObj kvs) r'))
          else (case ref_scalar (c # cs) of
                  None \<Rightarrow> None
                | Some (v, r) \<Rightarrow> ref_finish (JVal v) r))"

fun dump_scalar :: "pyval \<Rightarrow> string" where
  "dump_scalar PNone = ''null''"
| "dump_scalar (PBool b) = (if b then ''true'' else ''false'')"
| "dump_scalar (PStr s) = [CHR 0x22] @ s @ [CHR 0x22]"
| "dump_scalar (POther n t r) = r"

fun join_with :: "string \<Rightarrow> string list \<Rightarrow> string" where
  "join_with sep [] = []"
| "join_with sep [x] = x"
| "join_with sep (x # y # ys) = x @ sep @ join_with sep (y # ys)"

fun json_dumps_ref :: "json_ref \<Rightarrow> string" where
  "json_dumps_ref (JVal v) = dump_scalar v"
| "json_dumps_ref (JObj kvs) =
     ''{'' @ join_with '', '' (map (\<lambda>(k, v). [CHR 0x22] @ k @ [CHR 0x22] @ '': '' @ dump_scalar v) kvs) @ ''}''"

fun as_dict_ref :: "json_ref \<Rightarrow> row option" where
  "as_dict_ref (JObj kvs) = Some (map_of kvs)"
| "as_dict_ref (JVal v) = None"

definition json_ref_lib :: "json_ref json_lib" where
  "json_ref_lib = \<lparr>loads = json_loads_ref, dumps = json_dumps_ref, as_dict = as_dict_ref\<rparr>"

section \<open>Fenced responses\<close>

text \<open>
  A payload wrapped in a fenced block, as in the specification's example
  \<open>"```json\n{...}\n```"\<close>, and the test that a text contains a fence.
\<close>

definition fenced :: "string \<Rightarrow> string" where
  "fenced payload = ''```json'' @ [CHR 0x0A] @ payload @ [CHR 0x0A] @ ''```''"

fun has_fence :: "string \<Rightarrow> bool" where
  "has_fence [] = False"
| "has_fence (c # cs) = (startswith (c # cs) ''```'' \<or> has_fence cs)"

section \<open>Properties of the chunked store\<close>

subsection \<open>Writing chunks, reading keys\<close>

lemma write_chunk_snd: "snd (write_chunk nl chunk i st) = snd st + 1"
  by (simp add: write_chunk_def)

lemma fold_write_chunk_snd:
  "snd (fold (write_chunk nl chunk) is st) = snd st + int (length is)"
  by (induction "is" arbitrary: st) (simp_all add: write_chunk_snd)

lemma fold_write_chunk_map_of:
  "map_of (fst (fold (write_chunk nl chunk) (map (\<lambda>k. k * chunk) [0..<n]) (fo, nx))) =
     (\<lambda>i. if nx \<le> i \<and> i < nx + int n
          then Some (JArray (take chunk (drop (nat (i - nx) * chunk) nl)))
          else map_of fo i)"
proof (induction n)
  case 0
  show ?case by (auto simp: fun_eq_iff)
next
  case (Suc n)
  let ?st = "fold (write_chunk nl chunk) (map (\<lambda>k. k * chunk) [0..<n]) (fo, nx)"
  have snd_st: "snd ?st = nx + int n"
    using fold_write_chunk_snd [of nl chunk "map (\<lambda>k. k * chunk) [0..<n]" "(fo, nx)"] by simp
  have "fst (fold (write_chunk nl chunk) (map (\<lambda>k. k * chunk) [0..<Suc n]) (fo, nx))
      = write_file (fst ?st) (nx + int n) (JArray (take chunk (drop (n * chunk) nl)))"
    by (simp add: write_chunk_def snd_st)
  then show ?case
    using Suc.IH by (auto simp: write_file_def update_conv' fun_eq_iff)
qed

lemma write_chunks_map_of:
  "map_of (write_chunks nl chunk fo nx) =
     (\<lambda>i. if nx \<le> i \<and> i < nx + int (length (range_step (length nl) chunk))
          then Some (JArray (take chunk (drop (nat (i - nx) * chunk) nl)))
          else map_of fo i)"
  unfolding write_chunks_def range_step_def
  by (simp add: fold_write_chunk_map_of)

lemma sorted_le_last: "sorted xs \<Longrightarrow> x \<in> set xs \<Longrightarrow> x \<le> last xs"
  by (induction xs) (auto split: if_splits)

lemma last_sorted_max:
  assumes "folder \<noteq> []"
  shows "last (list_existing_json folder) \<in> set folder"
    and "\<forall>k \<in> fst ` set folder. k \<le> fst (last (list_existing_json folder))"
proof -
  let ?s = "sort_key fst folder"
  have ne: "?s \<noteq> []" using assms by (metis length_0_conv length_sort)
  have "last ?s \<in> set ?s" using ne by (rule last_in_set)
  then show "last (list_existing_json folder) \<in> set folder"
    by (simp add: list_existing_json_def)
  have srt: "sorted (map fst ?s)" by simp
  have "\<forall>k \<in> set (map fst ?s). k \<le> last (map fst ?s)"
    using srt sorted_le_last by blast
  then show "\<forall>k \<in> fst ` set folder. k \<le> fst (last (list_existing_json folder))"
    using ne by (simp add: list_existing_json_def last_map)
qed


lemma range_step_length_iff:
  "0 < chunk \<Longrightarrow> k < length (range_step n chunk) \<longleftrightarrow> k * chunk < n"
proof -
  assume c: "0 < chunk"
  have "k < (n + chunk - 1) div chunk \<longleftrightarrow> Suc k \<le> (n + chunk - 1) div chunk" by auto
  also have "\<dots> \<longleftrightarrow> Suc k * chunk \<le> n + chunk - 1"
    using c by (simp add: less_eq_div_iff_mult_less_eq)
  also have "\<dots> \<longleftrightarrow> k * chunk < n" using c by auto
  finally show ?thesis by (simp add: range_step_def)
qed

lemma concat_chunks_take:
  "concat (map (\<lambda>k. take chunk (drop (k * chunk) xs)) [0..<n]) = take (n * chunk) xs"
proof (induction n)
  case 0
  show ?case by simp
next
  case (Suc n)
  have "take (n * chunk) xs @ take chunk (drop (n * chunk) xs) = take (n * chunk + chunk) xs"
    by (simp add: take_add)
  then show ?case using Suc.IH by (simp add: add.commute)
qed

lemma concat_chunks:
  assumes "0 < chunk"
  shows "concat (map (\<lambda>k. take chunk (drop (k * chunk) xs)) [0..<length (range_step (length xs) chunk)]) = xs"
proof -
  let ?n = "length (range_step (length xs) chunk)"
  have "\<not> ?n < ?n" by simp
  then have "\<not> ?n * chunk < length xs"
    using range_step_length_iff [OF assms, of ?n "length xs"] by simp
  then show ?thesis by (simp add: concat_chunks_take)
qed

lemma map_of_distinct_mem:
  "distinct (map fst al) \<Longrightarrow> (k, v) \<in> set al \<Longrightarrow> map_of al k = Some v"
  by simp

lemma map_of_above_max:
  "\<forall>k \<in> fst ` set al. k \<le> (m::int) \<Longrightarrow> m < i \<Longrightarrow> map_of al i = None"
  by (metis linorder_not_less map_of_eq_None_iff)

lemma fill_last_room:
  assumes "folder \<noteq> []"
    and "last (list_existing_json folder) = (last_idx, f)"
    and "content = (case f of JArray c \<Rightarrow> c | Unparsable \<Rightarrow> [])"
    and "length content < chunk"
  shows "fill_last new_list folder chunk =
         (write_file folder last_idx (JArray (content @ take (chunk - length content) new_list)),
          drop (chunk - length content) new_list, last_idx + 1)"
proof -
  have "list_existing_json folder \<noteq> []"
    using assms(1) by (metis length_0_conv length_sort list_existing_json_def)
  then show ?thesis using assms(2,3,4) by (simp add: fill_last_def Let_def)
qed

lemma load_entries_Inr:
  "load_entries arr P = Inr P' \<longleftrightarrow>
     (\<forall>e \<in> set arr. \<exists>ko. entry_key e = Inr ko) \<and>
     P' = P \<union> {k. \<exists>e \<in> set arr. entry_key e = Inr (Some k)}"
proof (induction arr arbitrary: P)
  case Nil
  show ?case by auto
next
  case (Cons e arr)
  show ?case
  proof (cases "entry_key e")
    case (Inl err)
    then show ?thesis by auto
  next
    case (Inr ko)
    show ?thesis
    proof (cases ko)
      case None
      then show ?thesis using Inr Cons.IH [of P] by auto
    next
      case (Some k)
      then show ?thesis using Inr Cons.IH [of "insert k P"] by auto
    qed
  qed
qed

lemma load_files_Inr:
  "load_files fs P = Inr P' \<longleftrightarrow>
     (\<forall>e \<in> entries_of fs. \<exists>ko. entry_key e = Inr ko) \<and>
     P' = P \<union> {k. \<exists>e \<in> entries_of fs. entry_key e = Inr (Some k)}"
proof (induction fs P arbitrary: P' rule: load_files.induct)
  case (1 P)
  show ?case by (auto simp: entries_of_def)
next
  case (2 idx fs P)
  have "entries_of ((idx, Unparsable) # fs) = entries_of fs"
    by (auto simp: entries_of_def)
  then show ?case using "2.IH" by simp
next
  case (3 idx arr fs P)
  have e: "entries_of ((idx, JArray arr) # fs) = set arr \<union> entries_of fs"
    by (auto simp: entries_of_def)
  show ?case
  proof (cases "load_entries arr P")
    case (Inl err)
    then have "\<not> (\<forall>e \<in> set arr. \<exists>ko. entry_key e = Inr ko)"
      using load_entries_Inr [of arr P] by auto
    then show ?thesis using Inl e by auto
  next
    case (Inr P1)
    then have a: "\<forall>e \<in> set arr. \<exists>ko. entry_key e = Inr ko"
      and b: "P1 = P \<union> {k. \<exists>e \<in> set arr. entry_key e = Inr (Some k)}"
      using load_entries_Inr [of arr P P1] by auto
    show ?thesis using Inr "3.IH" [OF Inr, of P'] a b e by auto
  qed
qed

lemma load_processed_ids_Inr:
  "load_processed_ids folder = Inr S \<longleftrightarrow>
     (\<forall>e \<in> entries_of folder. \<exists>ko. entry_key e = Inr ko) \<and>
     S = {k. \<exists>e \<in> entries_of folder. entry_key e = Inr (Some k)}"
proof -
  have "entries_of (list_existing_json folder) = entries_of folder"
    by (simp add: entries_of_def list_existing_json_def)
  then show ?thesis
    using load_files_Inr [of "list_existing_json folder" "{}" S]
    by (simp add: load_processed_ids_def)
qed


lemma set_update_distinct:
  "distinct (map fst al) \<Longrightarrow> set (AList.update k v al) = insert (k, v) {p \<in> set al. fst p \<noteq> k}"
  by (induction al) (auto simp: rev_image_eqI)

lemma entries_of_write_file:
  assumes "distinct (map fst fo)"
  shows "entries_of (write_file fo k (JArray arr)) =
         set arr \<union> {e. \<exists>i a. (i, JArray a) \<in> set fo \<and> i \<noteq> k \<and> e \<in> set a}"
  unfolding entries_of_def write_file_def set_update_distinct [OF assms]
  by auto

lemma entries_of_write_file_fresh:
  assumes "distinct (map fst fo)" and "k \<notin> fst ` set fo"
  shows "entries_of (write_file fo k (JArray arr)) = entries_of fo \<union> set arr"
proof -
  have "{e. \<exists>i a. (i, JArray a) \<in> set fo \<and> i \<noteq> k \<and> e \<in> set a} = entries_of fo"
    using assms(2) by (force simp: entries_of_def)
  then show ?thesis using entries_of_write_file [OF assms(1)] by auto
qed

lemma fold_write_chunk_entries:
  assumes "distinct (map fst fo)" and "\<forall>k \<in> fst ` set fo. k < nx"
  shows "distinct (map fst (fst (fold (write_chunk nl chunk) (map (\<lambda>k. k * chunk) [0..<n]) (fo, nx)))) \<and>
         (\<forall>k \<in> fst ` set (fst (fold (write_chunk nl chunk) (map (\<lambda>k. k * chunk) [0..<n]) (fo, nx))). k < nx + int n) \<and>
         entries_of (fst (fold (write_chunk nl chunk) (map (\<lambda>k. k * chunk) [0..<n]) (fo, nx))) =
           entries_of fo \<union> set (take (n * chunk) nl)"
proof (induction n)
  case 0
  show ?case using assms by simp
next
  case (Suc n)
  let ?st = "fold (write_chunk nl chunk) (map (\<lambda>k. k * chunk) [0..<n]) (fo, nx)"
  let ?arr = "take chunk (drop (n * chunk) nl)"
  have snd_st: "snd ?st = nx + int n"
    using fold_write_chunk_snd [of nl chunk "map (\<lambda>k. k * chunk) [0..<n]" "(fo, nx)"] by simp
  have step: "fst (fold (write_chunk nl chunk) (map (\<lambda>k. k * chunk) [0..<Suc n]) (fo, nx))
      = write_file (fst ?st) (nx + int n) (JArray ?arr)"
    by (simp add: write_chunk_def snd_st)
  have d: "distinct (map fst (fst ?st))" and b: "\<forall>k \<in> fst ` set (fst ?st). k < nx + int n"
    and e: "entries_of (fst ?st) = entries_of fo \<union> set (take (n * chunk) nl)"
    using Suc.IH by auto
  have fresh: "nx + int n \<notin> fst ` set (fst ?st)" using b by auto
  have "distinct (map fst (write_file (fst ?st) (nx + int n) (JArray ?arr)))"
    using d by (simp add: write_file_def distinct_update)
  moreover have "\<forall>k \<in> fst ` set (write_file (fst ?st) (nx + int n) (JArray ?arr)). k < nx + int (Suc n)"
    using b by (auto simp: write_file_def dom_update)
  moreover have "entries_of (write_file (fst ?st) (nx + int n) (JArray ?arr))
                 = entries_of fo \<union> set (take (Suc n * chunk) nl)"
  proof -
    have "Suc n * chunk = n * chunk + chunk" by simp
    then have "take (Suc n * chunk) nl = take (n * chunk) nl @ ?arr"
      by (simp only: take_add)
    then show ?thesis
      using entries_of_write_file_fresh [OF d fresh, of ?arr] e by auto
  qed
  ultimately show ?case unfolding step by blast
qed

lemma write_chunks_entries:
  assumes "distinct (map fst fo)" and "\<forall>k \<in> fst ` set fo. k < nx" and "0 < chunk"
  shows "distinct (map fst (write_chunks nl chunk fo nx))"
    and "entries_of (write_chunks nl chunk fo nx) = entries_of fo \<union> set nl"
proof -
  let ?n = "length (range_step (length nl) chunk)"
  have "\<not> ?n < ?n" by simp
  then have "\<not> ?n * chunk < length nl"
    using range_step_length_iff [OF assms(3), of ?n "length nl"] by simp
  then have t: "take (?n * chunk) nl = nl" by simp
  have w: "write_chunks nl chunk fo nx =
           fst (fold (write_chunk nl chunk) (map (\<lambda>k. k * chunk) [0..<?n]) (fo, nx))"
    by (simp add: write_chunks_def range_step_def)
  show "distinct (map fst (write_chunks nl chunk fo nx))"
    unfolding w using fold_write_chunk_entries [OF assms(1,2), of nl chunk ?n] by blast
  show "entries_of (write_chunks nl chunk fo nx) = entries_of fo \<union> set nl"
    unfolding w using fold_write_chunk_entries [OF assms(1,2), of nl chunk ?n] t by simp
qed

lemma fill_last_entries:
  assumes wf: "distinct (map fst folder)"
    and fl: "fill_last new_list folder chunk = (folder1, rest, nx)"
  shows "distinct (map fst folder1) \<and> (\<forall>k \<in> fst ` set folder1. k < nx) \<and>
         entries_of folder1 \<union> set rest = entries_of folder \<union> set new_list"
proof (cases "folder = []")
  case True
  then show ?thesis using fl by (auto simp: fill_last_def list_existing_json_def Let_def)
next
  case False
  then have ne: "list_existing_json folder \<noteq> []"
    by (metis length_0_conv length_sort list_existing_json_def)
  obtain li f where lst: "last (list_existing_json folder) = (li, f)" by fastforce
  have mem: "(li, f) \<in> set folder" using last_sorted_max(1) [OF False] lst by simp
  have mx: "\<forall>k \<in> fst ` set folder. k \<le> li" using last_sorted_max(2) [OF False] lst by simp
  define content where "content = (case f of JArray c \<Rightarrow> c | Unparsable \<Rightarrow> [])"
  show ?thesis
  proof (cases "length content < chunk")
    case room: True
    let ?arr = "content @ take (chunk - length content) new_list"
    have f1: "folder1 = write_file folder li (JArray ?arr)"
      and r: "rest = drop (chunk - length content) new_list" and nx: "nx = li + 1"
      using fl ne lst room by (simp_all add: fill_last_def Let_def content_def)
    have uniq: "\<And>g. (li, g) \<in> set folder \<Longrightarrow> g = f"
      using wf mem by (metis map_of_distinct_mem option.inject)
    have "{e. \<exists>i a. (i, JArray a) \<in> set folder \<and> i \<noteq> li \<and> e \<in> set a} \<union> set content = entries_of folder"
    proof (cases f)
      case Unparsable
      then have "content = []" by (simp add: content_def)
      moreover have "\<And>i a. (i, JArray a) \<in> set folder \<Longrightarrow> i \<noteq> li"
        using uniq Unparsable by fastforce
      ultimately show ?thesis by (auto simp: entries_of_def)
    next
      case (JArray c)
      then have cc: "content = c" by (simp add: content_def)
      have ac: "\<And>a. (li, JArray a) \<in> set folder \<Longrightarrow> a = c" using uniq JArray by fastforce
      have "entries_of folder =
              {e. \<exists>i a. (i, JArray a) \<in> set folder \<and> i \<noteq> li \<and> e \<in> set a} \<union>
              {e. \<exists>a. (li, JArray a) \<in> set folder \<and> e \<in> set a}"
        unfolding entries_of_def by blast
      moreover have "{e. \<exists>a. (li, JArray a) \<in> set folder \<and> e \<in> set a} = set c"
        using ac mem JArray by blast
      ultimately show ?thesis using cc by simp
    qed
    then have "entries_of folder1 = entries_of folder \<union> set (take (chunk - length content) new_list)"
      unfolding f1 entries_of_write_file [OF wf] by auto
    moreover have "set (take (chunk - length content) new_list) \<union> set rest = set new_list"
      unfolding r by (metis append_take_drop_id set_append)
    moreover have "distinct (map fst folder1)"
      unfolding f1 using wf by (simp add: write_file_def distinct_update)
    moreover have "\<forall>k \<in> fst ` set folder1. k < nx"
      unfolding f1 nx using mx mem by (auto simp: write_file_def dom_update)
    ultimately show ?thesis by auto
  next
    case False
    then have "folder1 = folder" "rest = new_list" "nx = li + 1"
      using fl ne lst by (simp_all add: fill_last_def Let_def content_def)
    then show ?thesis using wf mx by auto
  qed
qed

lemma append_patents_entries:
  assumes wf: "distinct (map fst folder)" and c: "0 < chunk"
  shows "\<exists>folder'. append_patents new_list folder chunk = Inr folder' \<and>
           distinct (map fst folder') \<and>
           entries_of folder' = entries_of folder \<union> set new_list"
proof (cases "new_list = []")
  case True
  then show ?thesis using wf by (simp add: append_patents_def)
next
  case False
  obtain folder1 rest nx where fl: "fill_last new_list folder chunk = (folder1, rest, nx)"
    using prod_cases3 by blast
  have ap: "append_patents new_list folder chunk = Inr (write_chunks rest chunk folder1 nx)"
    using False c fl by (simp add: append_patents_def)
  have d1: "distinct (map fst folder1)" and b1: "\<forall>k \<in> fst ` set folder1. k < nx"
    and e1: "entries_of folder1 \<union> set rest = entries_of folder \<union> set new_list"
    using fill_last_entries [OF wf fl] by auto
  show ?thesis
    using ap write_chunks_entries [OF d1 b1 c, of rest] e1 by simp
qed

subsection \<open>C1: filling the last chunk, then splitting\<close>

text \<open>
  C1. When the last existing chunk holds fewer than \<open>chunk\<close> records, \<open>append_patents\<close>
  returns, and in the folder it leaves: the last chunk holds its old records in their
  order followed by the first \<open>chunk - length content\<close> new records; the remaining
  records \<open>rest\<close> are in \<open>n\<close> new chunks at the indices \<open>last_idx + 1\<close>, \<open>last_idx + 2\<close>,
  ..., each non-empty and each but the final one of exactly \<open>chunk\<close> records, whose
  concatenation is \<open>rest\<close>; the chunks below \<open>last_idx\<close> are unchanged, and there is no
  chunk above the new ones. The instance below is the one of the specification: capacity
  3, a last chunk of 2 records, 5 new records, giving chunks of 3, 3 and 1.
\<close>

theorem append_patents_fills_then_splits:
  assumes wf: "distinct (map fst folder)"
    and ne: "folder \<noteq> []"
    and lst: "last (list_existing_json folder) = (last_idx, JArray content)"
    and room: "length content < chunk"
    and rest: "rest = drop (chunk - length content) new_list"
    and n: "n = length (range_step (length rest) chunk)"
  shows "\<exists>folder'. append_patents new_list folder chunk = Inr folder' \<and>
           map_of folder' last_idx = Some (JArray (content @ take (chunk - length content) new_list)) \<and>
           (\<forall>k<n. map_of folder' (last_idx + 1 + int k) = Some (JArray (take chunk (drop (k * chunk) rest)))) \<and>
           (\<forall>k<n. take chunk (drop (k * chunk) rest) \<noteq> [] \<and>
                  (Suc k < n \<longrightarrow> length (take chunk (drop (k * chunk) rest)) = chunk)) \<and>
           concat (map (\<lambda>k. take chunk (drop (k * chunk) rest)) [0..<n]) = rest \<and>
           (\<forall>i. i < last_idx \<longrightarrow> map_of folder' i = map_of folder i) \<and>
           (\<forall>i. last_idx + int n < i \<longrightarrow> map_of folder' i = None)"
proof -
  have c: "0 < chunk" using room by simp
  have mem: "(last_idx, JArray content) \<in> set folder"
    using last_sorted_max(1) [OF ne] lst by simp
  have mx: "\<forall>k \<in> fst ` set folder. k \<le> last_idx"
    using last_sorted_max(2) [OF ne] lst by simp
  have old: "map_of folder last_idx = Some (JArray content)"
    using wf mem by (rule map_of_distinct_mem)
  have above: "\<And>i. last_idx < i \<Longrightarrow> map_of folder i = None"
    using mx by (rule map_of_above_max)
  have sizes: "\<forall>k<n. take chunk (drop (k * chunk) rest) \<noteq> [] \<and>
                  (Suc k < n \<longrightarrow> length (take chunk (drop (k * chunk) rest)) = chunk)"
  proof (intro allI impI conjI)
    fix k assume "k < n"
    then have "k * chunk < length rest" using range_step_length_iff [OF c] n by simp
    then show "take chunk (drop (k * chunk) rest) \<noteq> []" using c by simp
  next
    fix k assume "Suc k < n"
    then have "Suc k * chunk < length rest" using range_step_length_iff [OF c] n by simp
    then show "length (take chunk (drop (k * chunk) rest)) = chunk" by simp
  qed
  have cc: "concat (map (\<lambda>k. take chunk (drop (k * chunk) rest)) [0..<n]) = rest"
    using concat_chunks [OF c] n by simp
  show ?thesis
  proof (cases "new_list = []")
    case True
    then have "rest = []" "n = 0" using rest n c by (simp_all add: range_step_def)
    then show ?thesis using True old above by (simp add: append_patents_def)
  next
    case False
    let ?f1 = "write_file folder last_idx (JArray (content @ take (chunk - length content) new_list))"
    let ?f2 = "write_chunks rest chunk ?f1 (last_idx + 1)"
    have ap: "append_patents new_list folder chunk = Inr ?f2"
      using False c fill_last_room [OF ne lst _ room] rest by (simp add: append_patents_def)
    have m1: "map_of ?f1 = (map_of folder)(last_idx \<mapsto> JArray (content @ take (chunk - length content) new_list))"
      by (simp add: write_file_def update_conv')
    have m2: "map_of ?f2 = (\<lambda>i. if last_idx + 1 \<le> i \<and> i < last_idx + 1 + int n
          then Some (JArray (take chunk (drop (nat (i - (last_idx + 1)) * chunk) rest)))
          else map_of ?f1 i)"
      using write_chunks_map_of [of rest chunk ?f1 "last_idx + 1"] n by simp
    have "map_of ?f2 last_idx = Some (JArray (content @ take (chunk - length content) new_list))"
      by (simp add: m2 m1)
    moreover have "\<forall>k<n. map_of ?f2 (last_idx + 1 + int k) = Some (JArray (take chunk (drop (k * chunk) rest)))"
      by (simp add: m2)
    moreover have "\<forall>i. i < last_idx \<longrightarrow> map_of ?f2 i = map_of folder i"
      by (simp add: m2 m1)
    moreover have "\<forall>i. last_idx + int n < i \<longrightarrow> map_of ?f2 i = None"
      using above by (simp add: m2 m1)
    ultimately show ?thesis using ap sizes cc by blast
  qed
qed

theorem append_patents_fills_then_splits_witness:
  "\<exists>folder'. append_patents [[''id'' \<mapsto> PStr ''C''], [''id'' \<mapsto> PStr ''D''], [''id'' \<mapsto> PStr ''E''], [''id'' \<mapsto> PStr ''F''], [''id'' \<mapsto> PStr ''G'']] [(0, JArray [[''id'' \<mapsto> PStr ''A''], [''id'' \<mapsto> PStr ''B'']])] 3 = Inr folder' \<and>
     map_of folder' 0 = Some (JArray [[''id'' \<mapsto> PStr ''A''], [''id'' \<mapsto> PStr ''B''], [''id'' \<mapsto> PStr ''C'']]) \<and>
     map_of folder' 1 = Some (JArray [[''id'' \<mapsto> PStr ''D''], [''id'' \<mapsto> PStr ''E''], [''id'' \<mapsto> PStr ''F'']]) \<and>
     map_of folder' 2 = Some (JArray [[''id'' \<mapsto> PStr ''G'']]) \<and>
     map_of folder' 3 = None"
proof -
  have n: "length (range_step (length [[''id'' \<mapsto> PStr ''D''], [''id'' \<mapsto> PStr ''E''], [''id'' \<mapsto> PStr ''F''], [''id'' \<mapsto> PStr ''G'']]) 3) = 2"
    by (simp add: range_step_def)
  from append_patents_fills_then_splits
         [of "[(0, JArray [[''id'' \<mapsto> PStr ''A''], [''id'' \<mapsto> PStr ''B'']])]" 0 "[[''id'' \<mapsto> PStr ''A''], [''id'' \<mapsto> PStr ''B'']]" 3
             "[[''id'' \<mapsto> PStr ''D''], [''id'' \<mapsto> PStr ''E''], [''id'' \<mapsto> PStr ''F''], [''id'' \<mapsto> PStr ''G'']]"
             "[[''id'' \<mapsto> PStr ''C''], [''id'' \<mapsto> PStr ''D''], [''id'' \<mapsto> PStr ''E''], [''id'' \<mapsto> PStr ''F''], [''id'' \<mapsto> PStr ''G'']]" 2]
  obtain folder' where
    a: "append_patents [[''id'' \<mapsto> PStr ''C''], [''id'' \<mapsto> PStr ''D''], [''id'' \<mapsto> PStr ''E''], [''id'' \<mapsto> PStr ''F''], [''id'' \<mapsto> PStr ''G'']] [(0, JArray [[''id'' \<mapsto> PStr ''A''], [''id'' \<mapsto> PStr ''B'']])] 3 = Inr folder'"
    and b: "map_of folder' 0 = Some (JArray ([[''id'' \<mapsto> PStr ''A''], [''id'' \<mapsto> PStr ''B'']] @ take (3 - length [[''id'' \<mapsto> PStr ''A''], [''id'' \<mapsto> PStr ''B'']]) [[''id'' \<mapsto> PStr ''C''], [''id'' \<mapsto> PStr ''D''], [''id'' \<mapsto> PStr ''E''], [''id'' \<mapsto> PStr ''F''], [''id'' \<mapsto> PStr ''G'']]))"
    and c: "\<forall>k<2. map_of folder' (0 + 1 + int k) = Some (JArray (take 3 (drop (k * 3) [[''id'' \<mapsto> PStr ''D''], [''id'' \<mapsto> PStr ''E''], [''id'' \<mapsto> PStr ''F''], [''id'' \<mapsto> PStr ''G'']])))"
    and d: "\<forall>i. 0 + int 2 < i \<longrightarrow> map_of folder' i = None"
    using n by (auto simp: list_existing_json_def)
  have "map_of folder' 1 = Some (JArray [[''id'' \<mapsto> PStr ''D''], [''id'' \<mapsto> PStr ''E''], [''id'' \<mapsto> PStr ''F'']])"
    using c [rule_format, of 0] by simp
  moreover have "map_of folder' 2 = Some (JArray [[''id'' \<mapsto> PStr ''G'']])"
    using c [rule_format, of 1] by simp
  moreover have "map_of folder' 3 = None" using d by simp
  ultimately show ?thesis using a b by simp
qed

subsection \<open>C2: the processed keys after an append\<close>

text \<open>
  C2. Let \<open>load_processed_ids\<close> return the set \<open>S\<close> on a folder, and let every new
  record resolve to a key under the three-step fallback of \<open>load_processed_ids\<close>, the
  keys pairwise distinct. Then \<open>append_patents\<close> of the new records (capacity positive)
  returns, and \<open>load_processed_ids\<close> on the folder it leaves returns exactly the union of
  \<open>S\<close> and the keys of the new records, which are as many as the records.
\<close>

theorem load_append_load_union:
  assumes wf: "distinct (map fst folder)"
    and c: "0 < chunk"
    and first: "load_processed_ids folder = Inr S"
    and keys: "\<forall>r \<in> set new_list. \<exists>k. entry_key r = Inr (Some k)"
    and uniq: "distinct (map entry_key new_list)"
  shows "\<exists>folder'. append_patents new_list folder chunk = Inr folder' \<and>
           load_processed_ids folder' =
             Inr (S \<union> {k. \<exists>r \<in> set new_list. entry_key r = Inr (Some k)}) \<and>
           card {k. \<exists>r \<in> set new_list. entry_key r = Inr (Some k)} = length new_list"
proof -
  let ?K = "{k. \<exists>r \<in> set new_list. entry_key r = Inr (Some k)}"
  obtain folder' where ap: "append_patents new_list folder chunk = Inr folder'"
    and en: "entries_of folder' = entries_of folder \<union> set new_list"
    using append_patents_entries [OF wf c, of new_list] by blast
  have ok: "\<forall>e \<in> entries_of folder. \<exists>ko. entry_key e = Inr ko"
    and S: "S = {k. \<exists>e \<in> entries_of folder. entry_key e = Inr (Some k)}"
    using first load_processed_ids_Inr [of folder S] by auto
  have ok': "\<forall>e \<in> entries_of folder'. \<exists>ko. entry_key e = Inr ko"
    unfolding en using ok keys by blast
  have "{k. \<exists>e \<in> entries_of folder'. entry_key e = Inr (Some k)} = S \<union> ?K"
    unfolding en S by blast
  then have ld: "load_processed_ids folder' = Inr (S \<union> ?K)"
    using ok' load_processed_ids_Inr [of folder' "S \<union> ?K"] by simp
  define keyf where "keyf r = (case entry_key r of Inr (Some k) \<Rightarrow> k | _ \<Rightarrow> [])" for r
  have kf: "\<And>r. r \<in> set new_list \<Longrightarrow> entry_key r = Inr (Some (keyf r))"
    using keys by (auto simp: keyf_def)
  have "?K = keyf ` set new_list"
  proof (intro set_eqI iffI)
    fix k assume "k \<in> ?K"
    then obtain r where "r \<in> set new_list" "entry_key r = Inr (Some k)" by blast
    then show "k \<in> keyf ` set new_list" using kf by force
  next
    fix k assume "k \<in> keyf ` set new_list"
    then show "k \<in> ?K" using kf by auto
  qed
  moreover have "inj_on keyf (set new_list)"
  proof (rule inj_onI)
    fix x y assume "x \<in> set new_list" "y \<in> set new_list" "keyf x = keyf y"
    then have "entry_key x = entry_key y" using kf by metis
    then show "x = y"
      using uniq \<open>x \<in> set new_list\<close> \<open>y \<in> set new_list\<close>
      by (meson distinct_map inj_onD)
  qed
  moreover have "distinct new_list" using uniq by (simp add: distinct_map)
  ultimately have "card ?K = length new_list"
    by (simp add: card_image distinct_card)
  then show ?thesis using ap ld by blast
qed

theorem load_append_load_union_witness:
  "\<exists>folder'. append_patents [[''original_id'' \<mapsto> PStr ''us-2''], [''id'' \<mapsto> PStr ''CN3'']]
                  [(0, JArray [[''original_id'' \<mapsto> PStr ''US-1'']])] 1 = Inr folder' \<and>
     load_processed_ids [(0, JArray [[''original_id'' \<mapsto> PStr ''US-1'']])] = Inr {''US1''} \<and>
     load_processed_ids folder' = Inr {''US1'', ''US2'', ''CN3''}"
proof -
  have k1: "entry_key [''original_id'' \<mapsto> PStr ''us-2''] = Inr (Some ''US2'')"
    by code_simp
  have k2: "entry_key [''id'' \<mapsto> PStr ''CN3''] = Inr (Some ''CN3'')"
    by code_simp
  have l: "load_processed_ids [(0, JArray [[''original_id'' \<mapsto> PStr ''US-1'']])] = Inr {''US1''}"
    by code_simp
  have K: "{k. \<exists>r \<in> set [[''original_id'' \<mapsto> PStr ''us-2''], [''id'' \<mapsto> PStr ''CN3'']].
                 entry_key r = Inr (Some k)} = {''US2'', ''CN3''}"
    using k1 k2 by auto
  have d: "distinct (map entry_key [[''original_id'' \<mapsto> PStr ''us-2''], [''id'' \<mapsto> PStr ''CN3'']])"
    using k1 k2 by simp
  show ?thesis
    using load_append_load_union
      [of "[(0, JArray [[''original_id'' \<mapsto> PStr ''US-1'']])]" 1 "{''US1''}"
          "[[''original_id'' \<mapsto> PStr ''us-2''], [''id'' \<mapsto> PStr ''CN3'']]"]
      l d k1 k2 K by auto
qed

subsection \<open>C9: an unparsable last chunk is replaced\<close>

text \<open>
  C9. When the last existing chunk file does not parse, \<open>append_patents\<close> takes its
  content to be the empty list: it does not abort, and the file, which was unparsable
  before, holds after the call the first \<open>chunk\<close> new records and nothing else. (The write
  is the rename of a complete temporary file, which \<open>write_file\<close> stands for.)
\<close>

theorem append_patents_replaces_unparsable_last:
  assumes wf: "distinct (map fst folder)"
    and ne: "folder \<noteq> []"
    and lst: "last (list_existing_json folder) = (last_idx, Unparsable)"
    and new: "new_list \<noteq> []"
    and c: "0 < chunk"
  shows "\<exists>folder'. append_patents new_list folder chunk = Inr folder' \<and>
           map_of folder last_idx = Some Unparsable \<and>
           map_of folder' last_idx = Some (JArray (take chunk new_list))"
proof -
  have mem: "(last_idx, Unparsable) \<in> set folder"
    using last_sorted_max(1) [OF ne] lst by simp
  have old: "map_of folder last_idx = Some Unparsable"
    using wf mem by (rule map_of_distinct_mem)
  let ?f1 = "write_file folder last_idx (JArray (take chunk new_list))"
  let ?f2 = "write_chunks (drop chunk new_list) chunk ?f1 (last_idx + 1)"
  have "fill_last new_list folder chunk = (?f1, drop chunk new_list, last_idx + 1)"
    using fill_last_room [OF ne lst _ , of "[]" chunk new_list] c by simp
  then have ap: "append_patents new_list folder chunk = Inr ?f2"
    using new c by (simp add: append_patents_def)
  have "map_of ?f2 last_idx = map_of ?f1 last_idx"
    using write_chunks_map_of [of "drop chunk new_list" chunk ?f1 "last_idx + 1"] by simp
  then have "map_of ?f2 last_idx = Some (JArray (take chunk new_list))"
    by (simp add: write_file_def update_conv')
  then show ?thesis using ap old by blast
qed

theorem append_patents_replaces_unparsable_last_witness:
  "\<exists>folder'. append_patents [[''id'' \<mapsto> PStr ''C''], [''id'' \<mapsto> PStr ''D'']]
                 [(1, Unparsable), (0, JArray [[''id'' \<mapsto> PStr ''A'']])] 1 = Inr folder' \<and>
     map_of folder' 1 = Some (JArray [[''id'' \<mapsto> PStr ''C'']])"
  using append_patents_replaces_unparsable_last
     [of "[(1, Unparsable), (0, JArray [[''id'' \<mapsto> PStr ''A'']])]" 1
         "[[''id'' \<mapsto> PStr ''C''], [''id'' \<mapsto> PStr ''D'']]" 1]
  by (simp add: list_existing_json_def)

section \<open>Properties of the annotators\<close>

subsection \<open>The attempts of a retry loop\<close>

lemma attempts_1_to_3: "[1 ..< MAX_RETRIES + 1] = [1, 2, 3]" "[1 ..< retry_limit + 1] = [1, 2, 3]"
  by (simp_all add: MAX_RETRIES_def retry_limit_def upt_rec)

subsection \<open>C3: the identity resolver on malformed rows\<close>

lemma get_csv_patent_id_id_first:
  assumes "strip (py_str (py_or (dict_get r ''id'' (PStr '''')) (PStr ''''))) \<noteq> []"
  shows "get_csv_patent_id r =
         Inr (normalize_id (strip (py_str (py_or (dict_get r ''id'' (PStr '''')) (PStr '''')))))"
  using assms by (simp add: get_csv_patent_id_def Let_def)

lemma get_csv_patent_id_returns_on_string_link:
  assumes "dict_get r ''result link'' (PStr '''') = PStr u"
  shows "\<exists>k. get_csv_patent_id r = Inr k"
  using assms by (auto simp: get_csv_patent_id_def Let_def split: option.splits)

text \<open>
  C3. The resolver is to return for every row, whatever its field values. A row with no
  usable \<open>id\<close> whose \<open>result link\<close> is a true value other than a string (pandas gives
  the float NaN for an empty cell) makes \<open>re.search\<close> raise \<open>TypeError\<close>, and
  \<open>get_csv_patent_id\<close> does not catch it.
\<close>

theorem get_csv_patent_id_raises_on_non_string_link:
  "get_csv_patent_id [''result link'' \<mapsto> POther ''float'' True ''nan''] = Inl TypeError"
  by (simp add: get_csv_patent_id_def dict_get_def py_or_def strip_def)

subsection \<open>C4: two failures, then success\<close>


text \<open>
  A row whose \<open>id\<close> is not a string (a cell read as a number, or NaN) is outside the
  amended claim below: \<open>normalize_id\<close> raises inside the \<open>try\<close> of the attempt that
  scraped, so that after the same two sleeps the error record is returned, with the text
  of the \<open>AttributeError\<close>.
\<close>

lemma retry_loop_non_string_id:
  assumes idbad: "dict_get r ''id'' (PStr pid) = POther n t x"
    and f1: "scraper 1 = ScraperRaises m1 \<or> scraper 1 = NotSuccess m1"
    and f2: "scraper 2 = ScraperRaises m2 \<or> scraper 2 = NotSuccess m2"
    and s3: "scraper 3 = Scraped data final_url"
  shows "retry_loop r pid url scraper [1, 2, 3] =
           (Some [''id'' \<mapsto> PStr pid, ''url'' \<mapsto> PStr url,
                  ''error'' \<mapsto> PStr (attribute_error_text (POther n t x))],
            [RETRY_DELAY * 2 ^ (1 - 1), RETRY_DELAY * 2 ^ (2 - 1)])"
proof -
  obtain n1 where n1: "scrape_attempt r pid url (scraper 1) = Inl n1"
    using f1 by (auto simp: scrape_attempt_def)
  obtain n2 where n2: "scrape_attempt r pid url (scraper 2) = Inl n2"
    using f2 by (auto simp: scrape_attempt_def)
  have a3: "scrape_attempt r pid url (scraper 3) = Inl (attribute_error_text (POther n t x))"
    using s3 idbad by (simp add: scrape_attempt_def)
  have l3: "retry_loop r pid url scraper [3] =
        (Some [''id'' \<mapsto> PStr pid, ''url'' \<mapsto> PStr url,
               ''error'' \<mapsto> PStr (attribute_error_text (POther n t x))], [])"
    using a3 by (simp add: MAX_RETRIES_def)
  have l2: "retry_loop r pid url scraper [2, 3] =
        (Some [''id'' \<mapsto> PStr pid, ''url'' \<mapsto> PStr url,
               ''error'' \<mapsto> PStr (attribute_error_text (POther n t x))], [RETRY_DELAY * 2 ^ (2 - 1)])"
    using n2 l3 by (simp add: MAX_RETRIES_def Let_def)
  show ?thesis using n1 l2 by (simp add: MAX_RETRIES_def Let_def)
qed



lemma process_row_non_string_id:
  assumes pid: "get_csv_patent_id r = Inr pid" "pid \<noteq> []"
    and url: "dict_get r ''result link'' (PStr '''') = PStr u" "strip u \<noteq> []"
    and idbad: "dict_get r ''id'' (PStr pid) = POther n t x"
    and f1: "scraper 1 = ScraperRaises m1 \<or> scraper 1 = NotSuccess m1"
    and f2: "scraper 2 = ScraperRaises m2 \<or> scraper 2 = NotSuccess m2"
    and s3: "scraper 3 = Scraped data final_url"
  shows "process_row scraper r =
           Inr (Some [''id'' \<mapsto> PStr pid, ''url'' \<mapsto> PStr (strip u),
                      ''error'' \<mapsto> PStr (attribute_error_text (POther n t x))],
                [RETRY_DELAY * 2 ^ (1 - 1), RETRY_DELAY * 2 ^ (2 - 1)])"
  unfolding process_row_def attempts_1_to_3
  using pid url retry_loop_non_string_id [OF idbad f1 f2 s3, of "strip u"]
  by (simp add: Let_def)




subsection \<open>C5: the fallback of the page fetch\<close>

text \<open>
  C5, as the claim states it, fails: after a failure of the \<open>/en\<close> variant that is not a
  404 (here a 403) the function still requests the base URL and returns its page.
\<close>

theorem get_page_html_other_failure_counterexample:
  "get_page_html (\<lambda>u. if u = ''https://patents.google.com/patent/US1/en'' then HTTPError 403 else Page ''<html>'') ''US-1''
     = (Some ''<html>'', [''https://patents.google.com/patent/US1/en'', ''https://patents.google.com/patent/US1''])"
  by code_simp

text \<open>
  C5, amended. The \<open>/en\<close> variant is requested first. If it succeeds its page is returned
  and nothing else is requested. If it fails in any way (a 404, another HTTP error
  status, any other exception) the base URL is requested next, once: its page is returned
  if that succeeds, and "no data" if it fails. No URL is requested again.
\<close>

theorem get_page_html_falls_back_on_every_failure:
  "hd (snd (get_page_html fetch original_id)) = en_url original_id \<and>
   (\<forall>content. fetch (en_url original_id) = Page content \<longrightarrow>
        get_page_html fetch original_id = (Some content, [en_url original_id])) \<and>
   ((\<forall>content. fetch (en_url original_id) \<noteq> Page content) \<longrightarrow>
        snd (get_page_html fetch original_id) = [en_url original_id, base_url original_id] \<and>
        fst (get_page_html fetch original_id) =
          (case fetch (base_url original_id) of Page content \<Rightarrow> Some content | _ \<Rightarrow> None))"
  by (auto simp: get_page_html_def fallback_to_base_def split: http_result.splits)

theorem get_page_html_falls_back_on_every_failure_witness:
  "get_page_html (\<lambda>u. if u = ''https://patents.google.com/patent/US1/en'' then HTTPError 404 else Page ''<html>'') ''US-1''
     = (Some ''<html>'', [''https://patents.google.com/patent/US1/en'', ''https://patents.google.com/patent/US1''])"
proof -
  have e: "en_url ''US-1'' = ''https://patents.google.com/patent/US1/en''"
   and b: "base_url ''US-1'' = ''https://patents.google.com/patent/US1''"
    by code_simp+
  show ?thesis
    using get_page_html_falls_back_on_every_failure
      [of "\<lambda>u. if u = ''https://patents.google.com/patent/US1/en'' then HTTPError 404 else Page ''<html>''" "''US-1''"]
    unfolding e b
    by (simp add: prod_eq_iff)
qed

subsection \<open>C6: malformed output of the language model\<close>

text \<open>
  C6, as the claim states it, fails for the annotator of 02 (and of 05, the same text):
  the first response does not parse, the later ones would, and the annotator returns
  \<open>False\<close> after that one call, without a sleep and without a second attempt.
\<close>

theorem malformed_output_not_retried_counterexample:
  "json_loads_ref (extract_json ''not json'') = None \<and>
   async_get_teaching_content json_ref_lib
       (\<lambda>k. if k = 1 then Content (PStr ''not json'') else Content (PStr ''{\"teaching_content\": true}''))
       ''a patent abstract''
     = (PBool False, [], 1)"
  by code_simp

text \<open>
  C6, amended. In the taxonomy annotator (04) a response that does not decode is retried
  after the backoff: when all three responses are malformed the error classification is
  returned after three calls and sleeps of 2 and 4 seconds, and when the second response
  is good its classification is returned after one sleep. In the annotators of 02 and 05
  a response that does not parse is not retried: the default (\<open>False\<close>, \<open>"non-covid"\<close>) is
  returned at once. In each case the result is a returned value.
\<close>

theorem malformed_output_by_annotator:
  assumes nonblank: "strip text \<noteq> []"
    and up: "\<not> shutdown 1" "\<not> shutdown 2" "\<not> shutdown 3"
    and m1: "api 1 = Content (PStr s1)" "loads lib (json_candidate s1) = None"
    and m2: "api 2 = Content (PStr s2)" "loads lib (json_candidate s2) = None"
    and m3: "api 3 = Content (PStr s3)" "loads lib (json_candidate s3) = None"
    and g2: "classify_attempt lib (api' 2) = Some result"
    and m1': "api' 1 = Content (PStr s1)"
    and f1: "api2 1 = Content (PStr s)" "loads lib (extract_json s) = None"
  shows "async_get_edtech_classification lib api shutdown text = (error_result, [2, 4], 3) \<and>
         async_get_edtech_classification lib api' shutdown text = (result, [2], 2) \<and>
         async_get_teaching_content lib api2 text = (PBool False, [], 1) \<and>
         async_get_covid_status lib api2 text = (PStr ''non-covid'', [], 1)"
proof -
  have c1: "classify_attempt lib (api 1) = None" "classify_attempt lib (api' 1) = None"
    using m1 m1' by (simp_all add: classify_attempt_def extract_json_04_def)
  have c2: "classify_attempt lib (api 2) = None"
    using m2 by (simp add: classify_attempt_def extract_json_04_def)
  have c3: "classify_attempt lib (api 3) = None"
    using m3 by (simp add: classify_attempt_def extract_json_04_def)
  have "classify_loop lib api shutdown [3] = (error_result, [], 1)"
    using up c3 by (simp add: retry_limit_def)
  then have "classify_loop lib api shutdown [2, 3] = (error_result, [4], 2)"
    using up c2 by (simp add: retry_limit_def)
  then have "classify_loop lib api shutdown [1, 2, 3] = (error_result, [2, 4], 3)"
    using up c1 by (simp add: retry_limit_def)
  then have a: "async_get_edtech_classification lib api shutdown text = (error_result, [2, 4], 3)"
    unfolding async_get_edtech_classification_def attempts_1_to_3 using nonblank by simp
  have "classify_loop lib api' shutdown [2, 3] = (result, [], 1)"
    using up g2 by simp
  then have "classify_loop lib api' shutdown [1, 2, 3] = (result, [2], 2)"
    using up c1 by (simp add: retry_limit_def)
  then have b: "async_get_edtech_classification lib api' shutdown text = (result, [2], 2)"
    unfolding async_get_edtech_classification_def attempts_1_to_3 using nonblank by simp
  have f: "\<And>key dflt. field_attempt lib key dflt (api2 1) = Return dflt"
    using f1 by (simp add: field_attempt_def)
  have "\<And>key dflt. field_loop lib key dflt api2 [1, 2, 3] = (dflt, [], 1)"
    using f by simp
  then have g: "\<And>key dflt. async_get_field lib key dflt api2 text = (dflt, [], 1)"
    unfolding async_get_field_def attempts_1_to_3 using nonblank by simp
  have c: "async_get_teaching_content lib api2 text = (PBool False, [], 1)"
    unfolding async_get_teaching_content_def by (rule g)
  have d: "async_get_covid_status lib api2 text = (PStr ''non-covid'', [], 1)"
    unfolding async_get_covid_status_def by (rule g)
  show ?thesis by (rule conjI [OF a conjI [OF b conjI [OF c d]]])
qed

theorem malformed_output_by_annotator_witness:
  "async_get_edtech_classification json_ref_lib (\<lambda>k. Content (PStr ''not json'')) (\<lambda>k. False) ''a patent text''
     = (error_result, [2, 4], 3) \<and>
   async_get_edtech_classification json_ref_lib
       (\<lambda>k. if k = 1 then Content (PStr ''not json'')
            else Content (PStr ''{\"technology_class\": \"engagement\", \"reason\": \"games\"}''))
       (\<lambda>k. False) ''a patent text''
     = ([''technology_class'' \<mapsto> PStr ''engagement'', ''reason'' \<mapsto> PStr ''games''], [2], 2) \<and>
   async_get_teaching_content json_ref_lib (\<lambda>k. Content (PStr ''not json'')) ''a patent text'' = (PBool False, [], 1) \<and>
   async_get_covid_status json_ref_lib (\<lambda>k. Content (PStr ''not json'')) ''a patent text'' = (PStr ''non-covid'', [], 1)"
proof -
  let ?bad = "\<lambda>k::nat. Content (PStr ''not json'')"
  let ?s = "''{\"technology_class\": \"engagement\", \"reason\": \"games\"}''"
  let ?api' = "\<lambda>k::nat. if k = 1 then Content (PStr ''not json'') else Content (PStr ?s)"
  have nonblank: "strip ''a patent text'' \<noteq> []" by code_simp
  have m: "loads json_ref_lib (json_candidate ''not json'') = None" by code_simp
  have f: "loads json_ref_lib (extract_json ''not json'') = None" by code_simp
  have g2: "classify_attempt json_ref_lib (?api' 2) =
        Some [''technology_class'' \<mapsto> PStr ''engagement'', ''reason'' \<mapsto> PStr ''games'']"
  proof -
    have c: "json_candidate ?s = ?s" by code_simp
    have l: "json_loads_ref ?s = Some (JObj [(''technology_class'', PStr ''engagement''), (''reason'', PStr ''games'')])"
      by code_simp
    have d: "json_dumps_ref (JObj [(''technology_class'', PStr ''engagement''), (''reason'', PStr ''games'')]) = ?s"
      by code_simp
    show ?thesis
      by (simp add: classify_attempt_def extract_json_04_def json_ref_lib_def c l d dict_get_def)
  qed
  show ?thesis
    using malformed_output_by_annotator
      [of "''a patent text''" "\<lambda>k. False" ?bad "''not json''" json_ref_lib "''not json''" "''not json''"
          ?api' _ ?bad "''not json''",
       OF nonblank _ _ _ _ m _ m _ m g2 _ _ f]
    by simp
qed

subsection \<open>C8: fenced and bare payloads\<close>

lemma is_space_backtick [simp]: "\<not> is_space (CHR 0x60)"
  by (simp add: is_space_def)

lemma is_space_braces [simp]: "\<not> is_space (CHR ''{'')" "\<not> is_space (CHR ''}'')"
  by (simp_all add: is_space_def)

lemma is_space_newline [simp]: "is_space (CHR 0x0A)"
  by (simp add: is_space_def)

lemma strip_decomp:
  "\<exists>w1 w2. p = w1 @ strip p @ w2 \<and> (\<forall>c \<in> set w1. is_space c) \<and> (\<forall>c \<in> set w2. is_space c)"
proof -
  let ?d = "dropWhile is_space p"
  let ?w1 = "takeWhile is_space p"
  let ?w2 = "rev (takeWhile is_space (rev ?d))"
  have "rev ?d = takeWhile is_space (rev ?d) @ dropWhile is_space (rev ?d)" by simp
  then have "?d = rev (dropWhile is_space (rev ?d)) @ ?w2"
    by (metis rev_append rev_rev_ident)
  then have "p = ?w1 @ strip p @ ?w2"
    by (metis strip_def takeWhile_dropWhile_id)
  moreover have "\<forall>c \<in> set ?w1. is_space c" by (meson set_takeWhileD)
  moreover have "\<forall>c \<in> set ?w2. is_space c" by (metis set_rev set_takeWhileD)
  ultimately show ?thesis by blast
qed

lemma strip_not_space_ends:
  assumes "strip p \<noteq> []"
  shows "\<not> is_space (hd (strip p))" and "\<not> is_space (last (strip p))"
proof -
  let ?d = "dropWhile is_space p"
  have ne: "dropWhile is_space (rev ?d) \<noteq> []" using assms by (simp add: strip_def)
  then have "\<not> is_space (hd (dropWhile is_space (rev ?d)))" by (rule hd_dropWhile)
  then show "\<not> is_space (last (strip p))" using ne by (simp add: strip_def last_rev)
  have dne: "?d \<noteq> []" using ne by (metis dropWhile.simps(1) rev_is_Nil_conv)
  then have h: "\<not> is_space (hd ?d)" by (rule hd_dropWhile)
  obtain w2 where "?d = strip p @ w2"
    by (metis append_take_drop_id rev_append rev_rev_ident strip_def takeWhile_dropWhile_id)
  then have "hd ?d = hd (strip p)" using assms by (metis hd_append2)
  then show "\<not> is_space (hd (strip p))" using h by simp
qed

lemma dropWhile_space_id: "s \<noteq> [] \<Longrightarrow> \<not> is_space (hd s) \<Longrightarrow> dropWhile is_space s = s"
  by (cases s) simp_all

lemma strip_id:
  assumes "s \<noteq> []" "\<not> is_space (hd s)" "\<not> is_space (last s)"
  shows "strip s = s"
proof -
  have "dropWhile is_space s = s" using assms by (simp add: dropWhile_space_id)
  moreover have "dropWhile is_space (rev s) = rev s"
    using assms by (simp add: dropWhile_space_id hd_rev)
  ultimately show ?thesis by (simp add: strip_def)
qed

lemma dropWhile_all_space: "\<forall>c \<in> set w. is_space c \<Longrightarrow> dropWhile is_space (w @ s) = dropWhile is_space s"
  by (induction w) simp_all

lemma startswith_Nil [simp]: "startswith [] p \<longleftrightarrow> p = []"
  by (auto simp: startswith_def)

lemma startswith_append: "startswith a p \<Longrightarrow> startswith (a @ b) p"
proof -
  assume "startswith a p"
  then have t: "take (length p) a = p" by (simp add: startswith_def)
  then have "length (take (length p) a) = length p" by simp
  then have "length p \<le> length a" by simp
  then show ?thesis using t by (simp add: startswith_def)
qed

lemma startswith_Cons_append: "startswith (c # a) p \<Longrightarrow> startswith (c # a @ b) p"
  using startswith_append [of "c # a" p b] by simp

lemma has_fence_Cons: "\<not> has_fence (c # s) \<Longrightarrow> \<not> has_fence s"
  by simp

lemma has_fence_append_right: "has_fence b \<Longrightarrow> has_fence (a @ b)"
  by (induction a) simp_all

lemma has_fence_append_left: "has_fence a \<Longrightarrow> has_fence (a @ b)"
  by (induction a) (auto dest: startswith_Cons_append)

lemma has_fence_dropWhile: "has_fence (dropWhile P s) \<Longrightarrow> has_fence s"
  by (metis has_fence_append_right takeWhile_dropWhile_id)

lemma no_close_after_brace:
  assumes "b \<noteq> []" and "last b = CHR ''}''" and "\<not> has_fence b"
  shows "\<not> closes_fence (b @ e)"
proof
  assume cl: "closes_fence (b @ e)"
  let ?b = "dropWhile is_space b"
  have mem: "last b \<in> set b" using assms(1) by simp
  have nsp: "\<not> is_space (last b)" using assms(2) by simp
  have d: "dropWhile is_space (b @ e) = ?b @ e"
    using mem nsp by (rule dropWhile_append1)
  have ne: "?b \<noteq> []" using mem nsp by (metis dropWhile_eq_Nil_conv)
  then have lb: "last ?b = CHR ''}''"
    using assms(2) by (metis last_appendR takeWhile_dropWhile_id)
  have nf: "\<not> has_fence ?b" using assms(3) has_fence_dropWhile by blast
  have st: "startswith (?b @ e) ''```''" using cl d by (simp add: closes_fence_def)
  show False
  proof (cases ?b)
    case Nil
    then show ?thesis using ne by simp
  next
    case (Cons x xs)
    show ?thesis
    proof (cases xs)
      case Nil
      then show ?thesis using Cons lb st by (simp add: startswith_def)
    next
      case (Cons y ys)
      note c2 = this
      show ?thesis
      proof (cases ys)
        case Nil
        then show ?thesis using \<open>?b = x # xs\<close> c2 lb st by (simp add: startswith_def)
      next
        case (Cons z zs)
        then have "startswith ?b ''```''"
          using \<open>?b = x # xs\<close> c2 st by (simp add: startswith_def)
        then have "has_fence ?b" using \<open>?b = x # xs\<close> by simp
        then show ?thesis using nf by simp
      qed
    qed
  qed
qed

lemma lazy_object_last_brace:
  assumes "\<not> has_fence (mid @ ''}'')" and "closes_fence e"
  shows "lazy_object (mid @ CHR ''}'' # e) = Some (mid @ ''}'')"
  using assms(1)
proof (induction mid)
  case Nil
  show ?case using assms(2) by simp
next
  case (Cons c mid)
  have nf: "\<not> has_fence (mid @ ''}'')" using Cons.prems by simp
  have "\<not> closes_fence ((mid @ ''}'') @ e)"
    using nf by (intro no_close_after_brace) simp_all
  then have "\<not> closes_fence (mid @ CHR ''}'' # e)" by simp
  then show ?case using Cons.IH [OF nf] by simp
qed

lemma greedy_object_no_brace: "\<forall>c \<in> set e. c \<noteq> CHR ''}'' \<Longrightarrow> greedy_object e = None"
  by (induction e) simp_all

lemma greedy_object_last_brace:
  assumes "greedy_object e = None" and "closes_fence e"
  shows "greedy_object (mid @ CHR ''}'' # e) = Some (mid @ ''}'')"
  by (induction mid) (simp_all add: assms)

lemma search_fenced_object_none:
  "\<not> has_fence s \<Longrightarrow> search_with (match_fenced_object_at obj) s = None"
  by (induction s) (simp_all add: match_fenced_object_at_def)

lemma search_fence_none:
  "\<not> has_fence s \<Longrightarrow> search_with match_fence_at s = None"
  by (induction s) (simp_all add: match_fence_at_def)


lemma search_with_hit: "m s = Some g \<Longrightarrow> search_with m s = Some g"
  by (cases s) simp_all

lemma brace_shape:
  assumes "startswith core ''{''" and "endswith core ''}''"
  shows "\<exists>mid. core = CHR ''{'' # mid @ ''}''"
proof -
  obtain t where t: "core = CHR ''{'' # t"
    using assms(1) by (cases core) (simp_all add: startswith_def)
  have ne: "core \<noteq> []" using t by simp
  have "drop (length core - 1) core = ''}''" using assms(2) by (simp add: endswith_def)
  then have l: "last core = CHR ''}''"
    using ne by (metis last_drop last.simps diff_less length_greater_0_conv zero_less_one)
  have "t \<noteq> []" using t l by auto
  then have "t = butlast t @ [last t]" by simp
  moreover have "last t = CHR ''}''" using t l \<open>t \<noteq> []\<close> by simp
  ultimately have "core = CHR ''{'' # butlast t @ ''}''" using t by simp
  then show ?thesis by blast
qed

lemma fenced_shape:
  assumes "strip p = CHR ''{'' # mid @ ''}''"
  shows "\<exists>e. match_fenced_object_at obj (fenced p) = map_option ((#) CHR ''{'') (obj (mid @ CHR ''}'' # e)) \<and>
             closes_fence e \<and> (\<forall>c \<in> set e. c \<noteq> CHR ''}'')"
proof -
  obtain w1 w2 where p: "p = w1 @ strip p @ w2"
    and w1: "\<forall>c \<in> set w1. is_space c" and w2: "\<forall>c \<in> set w2. is_space c"
    using strip_decomp by blast
  let ?e = "w2 @ [CHR 0x0A] @ ''```''"
  have f: "fenced p = ''```'' @ ''json'' @ [CHR 0x0A] @ w1 @ (CHR ''{'' # mid @ CHR ''}'' # ?e)"
    using p assms by (simp add: fenced_def)
  have d: "dropWhile is_space ([CHR 0x0A] @ w1 @ (CHR ''{'' # mid @ CHR ''}'' # ?e)) = CHR ''{'' # mid @ CHR ''}'' # ?e"
    using w1 dropWhile_all_space [of "CHR 0x0A # w1"] by simp
  have m: "match_fenced_object_at obj (fenced p) = map_option ((#) CHR ''{'') (obj (mid @ CHR ''}'' # ?e))"
    unfolding f match_fenced_object_at_def using d by (simp add: startswith_def)
  have "dropWhile is_space ?e = ''```''"
    using w2 dropWhile_all_space [of "w2 @ [CHR 0x0A]" "''```''"] by simp
  then have c: "closes_fence ?e" by (simp add: closes_fence_def startswith_def)
  have n: "\<forall>c \<in> set ?e. c \<noteq> CHR ''}''" using w2 by auto
  show ?thesis using m c n by blast
qed

lemma has_fence_strip: "\<not> has_fence p \<Longrightarrow> \<not> has_fence (strip p)"
proof -
  assume nf: "\<not> has_fence p"
  obtain w1 w2 where "p = w1 @ strip p @ w2" using strip_decomp by blast
  then show ?thesis using nf by (metis has_fence_append_left has_fence_append_right)
qed

text \<open>
  C8, as the claim states it, fails: the payload below is a JSON object, one of whose
  strings holds a closing brace followed by a fence. Bare, \<open>extract_json\<close> (of 02 and 05)
  returns it whole and it parses; fenced, the lazy group stops at the brace inside the
  string, and the text returned does not parse.
\<close>

theorem fenced_payload_counterexample:
  "json_loads_ref ''{\"a\": \"}```\"}'' = Some (JObj [(''a'', PStr ''}```'')]) \<and>
   json_loads_ref (extract_json ''{\"a\": \"}```\"}'') = Some (JObj [(''a'', PStr ''}```'')]) \<and>
   extract_json (fenced ''{\"a\": \"}```\"}'') = ''{\"a\": \"}'' \<and>
   json_loads_ref (extract_json (fenced ''{\"a\": \"}```\"}'')) = None"
  by code_simp

text \<open>
  C8, amended. For every payload that contains no fence and that, stripped, starts with
  \<open>{\<close> and ends with \<open>}\<close>: \<open>extract_json\<close> of 02 and 05 returns the stripped payload for
  the fenced text and for the bare one, and \<open>extract_json\<close> of 04 hands the same candidate
  to \<open>json.loads\<close> for both, so its result is the same whatever the JSON library does.
  The instance is the example of the specification.
\<close>

theorem fenced_payload_extracted_alike:
  assumes nf: "\<not> has_fence payload"
    and st: "startswith (strip payload) ''{''"
    and en: "endswith (strip payload) ''}''"
  shows "extract_json (fenced payload) = strip payload \<and>
         extract_json payload = strip payload \<and>
         json_candidate (fenced payload) = json_candidate payload \<and>
         extract_json_04 lib (fenced payload) = extract_json_04 lib payload"
proof -
  let ?core = "strip payload"
  obtain mid where core: "?core = CHR ''{'' # mid @ ''}''"
    using brace_shape [OF st en] by blast
  have nfc: "\<not> has_fence ?core" using nf by (rule has_fence_strip)
  have nfm: "\<not> has_fence (mid @ ''}'')" using nfc core by simp
  obtain e where lz: "match_fenced_object_at lazy_object (fenced payload) =
                      map_option ((#) CHR ''{'') (lazy_object (mid @ CHR ''}'' # e))"
    and ce: "closes_fence e"
    using fenced_shape [OF core, of lazy_object] by blast
  have "match_fenced_object_at lazy_object (fenced payload) = Some ?core"
    using lz lazy_object_last_brace [OF nfm ce] core by simp
  then have "search_with (match_fenced_object_at lazy_object) (fenced payload) = Some ?core"
    by (rule search_with_hit)
  then have a: "extract_json (fenced payload) = ?core" by (simp add: extract_json_def)
  have b: "extract_json payload = ?core"
    using nf by (simp add: extract_json_def search_fenced_object_none search_fence_none)
  obtain e' where gr: "match_fenced_object_at greedy_object (fenced payload) =
                      map_option ((#) CHR ''{'') (greedy_object (mid @ CHR ''}'' # e'))"
    and ce': "closes_fence e'" and nb: "\<forall>c \<in> set e'. c \<noteq> CHR ''}''"
    using fenced_shape [OF core, of greedy_object] by blast
  have "match_fenced_object_at greedy_object (fenced payload) = Some ?core"
    using gr greedy_object_last_brace [OF greedy_object_no_brace [OF nb] ce'] core by simp
  then have sg: "search_with (match_fenced_object_at greedy_object) (fenced payload) = Some ?core"
    by (rule search_with_hit)
  have sf: "strip (fenced payload) = fenced payload"
    by (rule strip_id) (simp_all add: fenced_def)
  have cne: "?core \<noteq> []" using core by simp
  have sc: "strip ?core = ?core"
    using cne strip_not_space_ends [OF cne] by (intro strip_id)
  have c1: "json_candidate (fenced payload) = ?core"
    using sc st en by (simp add: json_candidate_def sf sg Let_def)
  have c2: "json_candidate payload = ?core"
    using search_fenced_object_none [OF nfc, of greedy_object] st en
    by (simp add: json_candidate_def Let_def)
  have c: "json_candidate (fenced payload) = json_candidate payload" using c1 c2 by simp
  have d: "extract_json_04 lib (fenced payload) = extract_json_04 lib payload"
    by (simp add: extract_json_04_def c)
  show ?thesis by (rule conjI [OF a conjI [OF b conjI [OF c d]]])
qed

theorem fenced_payload_extracted_alike_witness:
  "extract_json (''```json'' @ [CHR 0x0A] @ ''{\"is_covid\": \"covid\"}'' @ [CHR 0x0A] @ ''```'')
     = ''{\"is_covid\": \"covid\"}'' \<and>
   extract_json ''{\"is_covid\": \"covid\"}'' = ''{\"is_covid\": \"covid\"}'' \<and>
   json_loads_ref ''{\"is_covid\": \"covid\"}'' = Some (JObj [(''is_covid'', PStr ''covid'')])"
proof -
  let ?p = "''{\"is_covid\": \"covid\"}''"
  have nf: "\<not> has_fence ?p" by code_simp
  have sp: "strip ?p = ?p" by code_simp
  have st: "startswith (strip ?p) ''{''" and en: "endswith (strip ?p) ''}''"
    unfolding sp by code_simp+
  have l: "json_loads_ref ?p = Some (JObj [(''is_covid'', PStr ''covid'')])" by code_simp
  show ?thesis
    using fenced_payload_extracted_alike [OF nf st en, of json_ref_lib] l
    unfolding sp by (simp add: fenced_def)
qed

subsection \<open>C10: what the education-relevance stage writes\<close>

lemma filter_abstract_Inr:
  "filter_abstract loaded = Inr records \<Longrightarrow>
     set records \<subseteq> set loaded \<and>
     (\<forall>record \<in> set records. \<exists>s. dict_get record ''abstract_text'' (PStr '''') = PStr s \<and> strip s \<noteq> []) \<and>
     (\<forall>record \<in> set loaded. \<forall>s. dict_get record ''abstract_text'' (PStr '''') = PStr s \<longrightarrow> strip s = [] \<longrightarrow> record \<notin> set records)"
proof (induction loaded arbitrary: records)
  case Nil
  then show ?case by simp
next
  case (Cons r loaded)
  from Cons.prems obtain s kept where s: "dict_get r ''abstract_text'' (PStr '''') = PStr s"
    and k: "filter_abstract loaded = Inr kept"
    and rec: "records = (if strip s \<noteq> [] then r # kept else kept)"
    by (auto split: pyval.splits sum.splits)
  note ih = Cons.IH [OF k]
  show ?case
  proof (cases "strip s \<noteq> []")
    case True
    then have "records = r # kept" using rec by simp
    then show ?thesis using ih s True by auto
  next
    case False
    then have "records = kept" using rec by simp
    then show ?thesis using ih s False by auto
  qed
qed

lemma process_patent_02_cases:
  assumes "dict_get record ''abstract_text'' (PStr '''') = PStr s" and "strip s \<noteq> []"
  shows "process_patent_02 lib sd api record =
           Inr (if sd then (record, 0)
                else (record(''teaching_content'' \<mapsto> fst (async_get_teaching_content lib api (strip s))),
                      snd (snd (async_get_teaching_content lib api (strip s)))))"
  using assms by (simp add: process_patent_02_def Let_def split: prod.splits)

lemma process_patent_02_blank:
  assumes "dict_get record ''abstract_text'' (PStr '''') = PStr s" and "strip s = []"
  shows "process_patent_02 lib False api record = Inr (record(''teaching_content'' \<mapsto> PNone), 0)"
  using assms by (simp add: process_patent_02_def)

text \<open>
  C10. When \<open>main\<close> of 02 reaches its output, the list it writes holds exactly the task
  records whose \<open>teaching_content\<close> is the Boolean \<open>True\<close>. The tasks run on the loaded
  records with a non-blank \<open>abstract_text\<close>. A task that starts before shutdown leaves
  its record annotated with the annotator's value, and the record is written if and only
  if that value is \<open>True\<close> (so not when it is \<open>False\<close>). A task that starts after shutdown
  leaves its record as it was loaded, and the record is written only if it carried
  \<open>teaching_content = True\<close> already; a record without an annotation is not written. A
  loaded record with a blank abstract is none of the task records; \<open>process_patent\<close> would
  annotate it \<open>None\<close>.
\<close>

theorem main_02_writes_exactly_true_records:
  assumes "main_02 lib shutdown api loaded = Inr out"
  shows "\<exists>records. filter_abstract loaded = Inr records \<and>
           out = filter (\<lambda>record. record ''teaching_content'' = Some (PBool True))
                   (map (task_record lib shutdown api records) [0 ..< length records]) \<and>
           (\<forall>record \<in> set out. record ''teaching_content'' = Some (PBool True)) \<and>
           (\<forall>i < length records.
              \<exists>s. dict_get (records ! i) ''abstract_text'' (PStr '''') = PStr s \<and> strip s \<noteq> [] \<and>
                  task_record lib shutdown api records i =
                    (if shutdown i then records ! i
                     else (records ! i)(''teaching_content'' \<mapsto> fst (async_get_teaching_content lib (api i) (strip s)))) \<and>
                  (task_record lib shutdown api records i \<in> set out \<longleftrightarrow>
                    (if shutdown i then (records ! i) ''teaching_content'' = Some (PBool True)
                     else fst (async_get_teaching_content lib (api i) (strip s)) = PBool True))) \<and>
           (\<forall>record \<in> set loaded. \<forall>s. dict_get record ''abstract_text'' (PStr '''') = PStr s \<longrightarrow> strip s = [] \<longrightarrow>
                record \<notin> set records \<and>
                process_patent_02 lib False (api 0) record = Inr (record(''teaching_content'' \<mapsto> PNone), 0))"
proof -
  obtain records where fa: "filter_abstract loaded = Inr records"
    and out: "out = filter (\<lambda>record. record ''teaching_content'' = Some (PBool True))
                   (map (task_record lib shutdown api records) [0 ..< length records])"
    using assms by (auto simp: main_02_def split: sum.splits)
  note fi = filter_abstract_Inr [OF fa]
  have tr: "\<forall>record \<in> set out. record ''teaching_content'' = Some (PBool True)"
    unfolding out by simp
  have per: "\<forall>i < length records.
              \<exists>s. dict_get (records ! i) ''abstract_text'' (PStr '''') = PStr s \<and> strip s \<noteq> [] \<and>
                  task_record lib shutdown api records i =
                    (if shutdown i then records ! i
                     else (records ! i)(''teaching_content'' \<mapsto> fst (async_get_teaching_content lib (api i) (strip s)))) \<and>
                  (task_record lib shutdown api records i \<in> set out \<longleftrightarrow>
                    (if shutdown i then (records ! i) ''teaching_content'' = Some (PBool True)
                     else fst (async_get_teaching_content lib (api i) (strip s)) = PBool True))"
  proof (intro allI impI)
    fix i assume i: "i < length records"
    then have "records ! i \<in> set records" by simp
    then obtain s where s: "dict_get (records ! i) ''abstract_text'' (PStr '''') = PStr s"
      and ne: "strip s \<noteq> []" using fi by blast
    have t: "task_record lib shutdown api records i =
          (if shutdown i then records ! i
           else (records ! i)(''teaching_content'' \<mapsto> fst (async_get_teaching_content lib (api i) (strip s))))"
      by (simp add: task_record_def process_patent_02_cases [OF s ne])
    have "task_record lib shutdown api records i \<in> set out \<longleftrightarrow>
            task_record lib shutdown api records i ''teaching_content'' = Some (PBool True)"
      unfolding out using i by auto
    also have "\<dots> \<longleftrightarrow> (if shutdown i then (records ! i) ''teaching_content'' = Some (PBool True)
                     else fst (async_get_teaching_content lib (api i) (strip s)) = PBool True)"
      by (simp add: t)
    finally show "\<exists>s. dict_get (records ! i) ''abstract_text'' (PStr '''') = PStr s \<and> strip s \<noteq> [] \<and>
                  task_record lib shutdown api records i =
                    (if shutdown i then records ! i
                     else (records ! i)(''teaching_content'' \<mapsto> fst (async_get_teaching_content lib (api i) (strip s)))) \<and>
                  (task_record lib shutdown api records i \<in> set out \<longleftrightarrow>
                    (if shutdown i then (records ! i) ''teaching_content'' = Some (PBool True)
                     else fst (async_get_teaching_content lib (api i) (strip s)) = PBool True))"
      using s ne t by blast
  qed
  have blank: "\<forall>record \<in> set loaded. \<forall>s. dict_get record ''abstract_text'' (PStr '''') = PStr s \<longrightarrow> strip s = [] \<longrightarrow>
                record \<notin> set records \<and>
                process_patent_02 lib False (api 0) record = Inr (record(''teaching_content'' \<mapsto> PNone), 0)"
    using fi process_patent_02_blank by blast
  show ?thesis using fa out tr per blank by blast
qed


theorem main_02_writes_exactly_true_records_witness:
  "main_02 json_ref_lib (\<lambda>i. i = 2)
      (\<lambda>i k. if i = 0 then Content (PStr ''{\"teaching_content\": true}'')
              else Content (PStr ''{\"teaching_content\": false}''))
      [[''abstract_text'' \<mapsto> PStr ''a method of teaching''],
       [''abstract_text'' \<mapsto> PStr ''a combustion engine''],
       [''abstract_text'' \<mapsto> PStr '' ''],
       [''abstract_text'' \<mapsto> PStr ''a classroom game'']]
     = Inr [[''abstract_text'' \<mapsto> PStr ''a method of teaching'', ''teaching_content'' \<mapsto> PBool True]] \<and>
   [''abstract_text'' \<mapsto> PStr ''a method of teaching'', ''teaching_content'' \<mapsto> PBool True] ''teaching_content''
     = Some (PBool True)"
proof -
  let ?l0 = "[''abstract_text'' \<mapsto> PStr ''a method of teaching'']"
  let ?l1 = "[''abstract_text'' \<mapsto> PStr ''a combustion engine'']"
  let ?l2 = "[''abstract_text'' \<mapsto> PStr '' '']"
  let ?l3 = "[''abstract_text'' \<mapsto> PStr ''a classroom game'']"
  let ?yes = "\<lambda>k::nat. Content (PStr ''{\"teaching_content\": true}'')"
  let ?no = "\<lambda>k::nat. Content (PStr ''{\"teaching_content\": false}'')"
  let ?api = "\<lambda>(i::nat) (k::nat). if i = 0 then Content (PStr ''{\"teaching_content\": true}'')
              else Content (PStr ''{\"teaching_content\": false}'')"
  let ?sd = "\<lambda>i::nat. i = 2"
  have s0: "strip ''a method of teaching'' = ''a method of teaching''"
    and s1: "strip ''a combustion engine'' = ''a combustion engine''"
    and s2: "strip '' '' = []"
    and s3: "strip ''a classroom game'' = ''a classroom game''"
    by code_simp+
  have fa: "filter_abstract [?l0, ?l1, ?l2, ?l3] = Inr [?l0, ?l1, ?l3]"
    by (simp add: dict_get_def s0 s1 s2 s3)
  have a0: "async_get_teaching_content json_ref_lib ?yes ''a method of teaching'' = (PBool True, [], 1)"
    by code_simp
  have a1: "async_get_teaching_content json_ref_lib ?no ''a combustion engine'' = (PBool False, [], 1)"
    by code_simp
  have t0: "task_record json_ref_lib ?sd ?api [?l0, ?l1, ?l3] 0 = ?l0(''teaching_content'' \<mapsto> PBool True)"
    by (simp add: task_record_def process_patent_02_def dict_get_def s0 a0)
  have t1: "task_record json_ref_lib ?sd ?api [?l0, ?l1, ?l3] 1 = ?l1(''teaching_content'' \<mapsto> PBool False)"
    by (simp add: task_record_def process_patent_02_def dict_get_def s1 a1)
  have t2: "task_record json_ref_lib ?sd ?api [?l0, ?l1, ?l3] 2 = ?l3"
    by (simp add: task_record_def process_patent_02_def)
  have up: "[0 ..< length [?l0, ?l1, ?l3]] = [0, 1, 2]" by (simp add: upt_rec)
  have ev: "main_02 json_ref_lib ?sd ?api [?l0, ?l1, ?l2, ?l3] = Inr [?l0(''teaching_content'' \<mapsto> PBool True)]"
    unfolding main_02_def fa by (simp only: sum.case up list.map t0 t1 t2) simp
  from main_02_writes_exactly_true_records [OF ev]
  have "\<forall>record \<in> set [?l0(''teaching_content'' \<mapsto> PBool True)]. record ''teaching_content'' = Some (PBool True)"
    by blast
  then have "(?l0(''teaching_content'' \<mapsto> PBool True)) ''teaching_content'' = Some (PBool True)"
    by simp
  then show ?thesis using ev by simp
qed

subsection \<open>C7: the shutdown flag\<close>

text \<open>
  A coroutine that reads the flag as set makes no call of the API from then on: the tasks
  of 02 and 05 leave their record as it is, and the annotator of 04 returns the error
  classification at the round where it reads the flag. The retry loops of 02 and 05 do
  not read the flag: what their task does after its start does not depend on it.
\<close>

lemma strip_strip_nonblank: "strip s \<noteq> [] \<Longrightarrow> strip (strip s) = strip s"
  using strip_not_space_ends [of s] by (simp add: strip_id)

lemma process_patent_02_after_shutdown:
  "process_patent_02 lib True api record = Inr (record, 0)"
  by (simp add: process_patent_02_def)

lemma classify_loop_after_shutdown:
  "shutdown attempt \<Longrightarrow> classify_loop lib api shutdown (attempt # rest) = (error_result, [], 0)"
  by simp

lemma async_get_edtech_classification_after_shutdown:
  assumes "strip text \<noteq> []" and "shutdown 1"
  shows "async_get_edtech_classification lib api shutdown text = (error_result, [], 0)"
  unfolding async_get_edtech_classification_def attempts_1_to_3
  using assms by simp

lemma async_get_edtech_classification_shutdown_at_2:
  assumes "strip text \<noteq> []" and "\<not> shutdown 1" and "classify_attempt lib (api 1) = None"
    and "shutdown 2"
  shows "async_get_edtech_classification lib api shutdown text = (error_result, [1 * 2], 1)"
  unfolding async_get_edtech_classification_def attempts_1_to_3
  using assms by (simp add: retry_limit_def)

lemma field_loop_all_raise:
  assumes "api 1 = ApiRaises" "api 2 = ApiRaises" "api 3 = ApiRaises"
  shows "field_loop lib key dflt api [1, 2, 3] = (dflt, [1, 2], 3)"
  using assms by (simp add: field_attempt_def retry_limit_def)

lemma process_patent_05_flag_after_start:
  "\<not> shutdown 0 \<Longrightarrow> process_patent_05 lib shutdown api record = process_patent_05 lib (\<lambda>t. False) api record"
  by (simp add: process_patent_05_def)

text \<open>
  C7, as the claim states it, fails for 05 (and 02, whose text is the same). With the flag
  set, \<open>main\<close> of 05 still creates a task for every record: there is no check before
  dispatching. And a task that started just before the flag was set (the flag is set at
  every instant after its start) goes on to call the API at attempts 1, 2 and 3: three
  calls are admitted after the shutdown request.
\<close>

theorem retries_after_shutdown_counterexample:
  "tasks_05 True [[''description'' \<mapsto> PStr ''a device'']] = [[''description'' \<mapsto> PStr ''a device'']] \<and>
   process_patent_05 json_ref_lib (\<lambda>t. 0 < t) (\<lambda>k. ApiRaises) [''description'' \<mapsto> PStr ''a device'']
     = Inr ([''description'' \<mapsto> PStr ''a device'', ''is_covid'' \<mapsto> PStr ''non-covid''], 3)"
proof -
  have s: "strip ''a device'' = ''a device''" by code_simp
  have a: "async_get_covid_status json_ref_lib (\<lambda>k. ApiRaises) ''a device'' = (PStr ''non-covid'', [1, 2], 3)"
    by code_simp
  show ?thesis
    by (simp add: tasks_05_def process_patent_05_def dict_get_def s a)
qed

text \<open>
  C7, amended. A task that starts with the flag set makes no call of the API, in every
  stage: 04 marks its record \<open>Shutdown\<close>, 02 and 05 leave it unannotated. Only 04 also
  checks the flag before dispatching (no task is created when it is set) and at the start
  of each round of its retry loop (a round that reads the flag as set makes no call: with
  the flag set between rounds 1 and 2, one call is made). 02 and 05 create a task for
  every record whatever the flag, and a task that started with the flag unset behaves as
  if it were never set: when every call raises it makes all three attempts. Records held
  by the chunk files that parse remain present after every later \<open>append_patents\<close>.
\<close>

theorem shutdown_checks_by_stage:
  assumes desc: "dict_get record ''description'' (PStr '''') = PStr d" and dn: "strip d \<noteq> []"
    and abstract: "dict_get record ''abstract_text'' (PStr '''') = PStr a" and an: "strip a \<noteq> []"
    and set0: "requested 0"
    and later: "\<not> later 0" "\<not> later 1" "later 2"
    and fails: "classify_attempt lib (api4 1) = None"
    and raising: "api 1 = ApiRaises" "api 2 = ApiRaises" "api 3 = ApiRaises"
    and wf: "distinct (map fst folder)" and c: "0 < chunk"
  shows "tasks_04 True records = [] \<and>
         tasks_04 False records = records \<and>
         tasks_05 True records = records \<and>
         process_patent_04 lib requested api' record' =
           (record'(''technology_class'' \<mapsto> PStr ''Shutdown'', ''reason'' \<mapsto> PStr ''Shutdown requested''), 0) \<and>
         process_patent_05 lib requested api' record' = Inr (record', 0) \<and>
         process_patent_02 lib True api' record' = Inr (record', 0) \<and>
         process_patent_04 lib later api4 record =
           (record(''technology_class'' \<mapsto> PStr ''Error'', ''reason'' \<mapsto> PStr ''API call failed''), 1) \<and>
         process_patent_05 lib later api' record' = process_patent_05 lib (\<lambda>t. False) api' record' \<and>
         process_patent_05 lib later api record = Inr (record(''is_covid'' \<mapsto> PStr ''non-covid''), 3) \<and>
         process_patent_02 lib False api record = Inr (record(''teaching_content'' \<mapsto> PBool False), 3) \<and>
         (\<exists>folder'. append_patents new_list folder chunk = Inr folder' \<and>
                     entries_of folder \<subseteq> entries_of folder')"
proof -
  have t1: "tasks_04 True records = []" by (simp add: tasks_04_def)
  have t2: "tasks_04 False records = records" by (simp add: tasks_04_def)
  have t3: "tasks_05 True records = records" by (simp add: tasks_05_def)
  have r4: "process_patent_04 lib requested api' record' =
           (record'(''technology_class'' \<mapsto> PStr ''Shutdown'', ''reason'' \<mapsto> PStr ''Shutdown requested''), 0)"
    using set0 by (simp add: process_patent_04_def)
  have r5: "process_patent_05 lib requested api' record' = Inr (record', 0)"
    using set0 by (simp add: process_patent_05_def)
  have r2: "process_patent_02 lib True api' record' = Inr (record', 0)"
    by (rule process_patent_02_after_shutdown)
  have dd: "strip (strip d) \<noteq> []" using dn by (simp add: strip_strip_nonblank)
  have aa: "strip (strip a) \<noteq> []" using an by (simp add: strip_strip_nonblank)
  have "async_get_edtech_classification lib api4 later (strip d) = (error_result, [1 * 2], 1)"
    using async_get_edtech_classification_shutdown_at_2
      [where shutdown = later and api = api4 and lib = lib, OF dd later(2) fails later(3)] .
  then have l4: "process_patent_04 lib later api4 record =
           (record(''technology_class'' \<mapsto> PStr ''Error'', ''reason'' \<mapsto> PStr ''API call failed''), 1)"
    using later(1) desc dn by (simp add: process_patent_04_def error_result_def dict_get_def)
  have g5: "process_patent_05 lib later api' record' = process_patent_05 lib (\<lambda>t. False) api' record'"
    using later(1) by (rule process_patent_05_flag_after_start)
  have "async_get_covid_status lib api (strip d) = (PStr ''non-covid'', [1, 2], 3)"
    unfolding async_get_covid_status_def async_get_field_def attempts_1_to_3
    using dd field_loop_all_raise [where api = api and lib = lib and key = "''is_covid''" and dflt = "PStr ''non-covid''", OF raising] by simp
  then have l5: "process_patent_05 lib later api record = Inr (record(''is_covid'' \<mapsto> PStr ''non-covid''), 3)"
    using later(1) desc dn by (simp add: process_patent_05_def)
  have "async_get_teaching_content lib api (strip a) = (PBool False, [1, 2], 3)"
    unfolding async_get_teaching_content_def async_get_field_def attempts_1_to_3
    using aa field_loop_all_raise [where api = api and lib = lib and key = "''teaching_content''" and dflt = "PBool False", OF raising] by simp
  then have l2: "process_patent_02 lib False api record = Inr (record(''teaching_content'' \<mapsto> PBool False), 3)"
    using abstract an by (simp add: process_patent_02_def)
  obtain folder' where "append_patents new_list folder chunk = Inr folder'"
    and "entries_of folder' = entries_of folder \<union> set new_list"
    using append_patents_entries [OF wf c, of new_list] by blast
  then have p: "\<exists>folder'. append_patents new_list folder chunk = Inr folder' \<and>
                     entries_of folder \<subseteq> entries_of folder'"
    by blast
  show ?thesis
    by (rule conjI [OF t1 conjI [OF t2 conjI [OF t3 conjI [OF r4 conjI [OF r5 conjI [OF r2
          conjI [OF l4 conjI [OF g5 conjI [OF l5 conjI [OF l2 p]]]]]]]]]])
qed

theorem shutdown_checks_by_stage_witness:
  "tasks_04 True [[''description'' \<mapsto> PStr ''a device'', ''abstract_text'' \<mapsto> PStr ''an abstract'']] = [] \<and>
   tasks_05 True [[''description'' \<mapsto> PStr ''a device'', ''abstract_text'' \<mapsto> PStr ''an abstract'']]
     = [[''description'' \<mapsto> PStr ''a device'', ''abstract_text'' \<mapsto> PStr ''an abstract'']] \<and>
   process_patent_04 json_ref_lib (\<lambda>t. True) (\<lambda>k. ApiRaises)
       [''description'' \<mapsto> PStr ''a device'', ''abstract_text'' \<mapsto> PStr ''an abstract'']
     = ([''description'' \<mapsto> PStr ''a device'', ''abstract_text'' \<mapsto> PStr ''an abstract'',
         ''technology_class'' \<mapsto> PStr ''Shutdown'', ''reason'' \<mapsto> PStr ''Shutdown requested''], 0) \<and>
   process_patent_05 json_ref_lib (\<lambda>t. True) (\<lambda>k. ApiRaises)
       [''description'' \<mapsto> PStr ''a device'', ''abstract_text'' \<mapsto> PStr ''an abstract'']
     = Inr ([''description'' \<mapsto> PStr ''a device'', ''abstract_text'' \<mapsto> PStr ''an abstract''], 0) \<and>
   process_patent_04 json_ref_lib (\<lambda>t. 2 \<le> t) (\<lambda>k. NoMessage)
       [''description'' \<mapsto> PStr ''a device'', ''abstract_text'' \<mapsto> PStr ''an abstract'']
     = ([''description'' \<mapsto> PStr ''a device'', ''abstract_text'' \<mapsto> PStr ''an abstract'',
         ''technology_class'' \<mapsto> PStr ''Error'', ''reason'' \<mapsto> PStr ''API call failed''], 1) \<and>
   process_patent_05 json_ref_lib (\<lambda>t. 2 \<le> t) (\<lambda>k. ApiRaises)
       [''description'' \<mapsto> PStr ''a device'', ''abstract_text'' \<mapsto> PStr ''an abstract'']
     = Inr ([''description'' \<mapsto> PStr ''a device'', ''abstract_text'' \<mapsto> PStr ''an abstract'',
             ''is_covid'' \<mapsto> PStr ''non-covid''], 3) \<and>
   process_patent_02 json_ref_lib False (\<lambda>k. ApiRaises)
       [''description'' \<mapsto> PStr ''a device'', ''abstract_text'' \<mapsto> PStr ''an abstract'']
     = Inr ([''description'' \<mapsto> PStr ''a device'', ''abstract_text'' \<mapsto> PStr ''an abstract'',
             ''teaching_content'' \<mapsto> PBool False], 3) \<and>
   (\<exists>folder'. append_patents [[''id'' \<mapsto> PStr ''CN3'']] [(0, JArray [[''id'' \<mapsto> PStr ''US1'']])] 1 = Inr folder' \<and>
               entries_of [(0, JArray [[''id'' \<mapsto> PStr ''US1'']])] \<subseteq> entries_of folder')"
proof -
  let ?r = "[''description'' \<mapsto> PStr ''a device'', ''abstract_text'' \<mapsto> PStr ''an abstract'']"
  have desc: "dict_get ?r ''description'' (PStr '''') = PStr ''a device''"
    by (simp add: dict_get_def)
  have dn: "strip ''a device'' \<noteq> []" by code_simp
  have abstract: "dict_get ?r ''abstract_text'' (PStr '''') = PStr ''an abstract''"
    by (simp add: dict_get_def)
  have an: "strip ''an abstract'' \<noteq> []" by code_simp
  have fails: "classify_attempt json_ref_lib ((\<lambda>k::nat. NoMessage) 1) = None"
    by (simp add: classify_attempt_def)
  have wf: "distinct (map fst [(0::int, JArray [[''id'' \<mapsto> PStr ''US1'']])])" by simp
  have c: "0 < (1::nat)" by simp
  have s0: "(\<lambda>t::nat. True) 0" by simp
  have l0: "\<not> (\<lambda>t::nat. 2 \<le> t) 0" and l1: "\<not> (\<lambda>t::nat. 2 \<le> t) 1" and l2: "(\<lambda>t::nat. 2 \<le> t) 2"
    by simp_all
  have ra: "\<And>n::nat. (\<lambda>k::nat. ApiRaises) n = ApiRaises" by simp
  note th = shutdown_checks_by_stage
      [of ?r "''a device''" "''an abstract''" "\<lambda>t. True" "\<lambda>t. 2 \<le> t"
          json_ref_lib "\<lambda>k. NoMessage" "\<lambda>k. ApiRaises"
          "[(0, JArray [[''id'' \<mapsto> PStr ''US1'']])]" 1
          "[?r]" "\<lambda>k. ApiRaises" ?r "[[''id'' \<mapsto> PStr ''CN3'']]",
       OF desc dn abstract an s0 l0 l1 l2 fails ra ra ra wf c]
  show ?thesis using th by (elim conjE) (intro conjI; assumption)
qed

end
